theory Spec2Isabelle
  imports Complex_Main
begin

section \<open>Strings\<close>

text \<open>
  Python strings are modelled as \<^typ>\<open>string\<close>: lists of 8-bit characters, read as the
  code points 0 to 255. \<open>is_space\<close> is the whitespace test shared by \<open>str.strip\<close> and
  the regular-expression class \<open>\s\<close> on that range.
\<close>

definition is_space :: "char \<Rightarrow> bool" where
  "is_space c = (of_char c \<in> set [9, 10, 11, 12, 13, 28, 29, 30, 31, 32, 133, 160 :: nat])"

definition strip :: "string \<Rightarrow> string" where
  "strip s = rev (dropWhile is_space (rev (dropWhile is_space s)))"

definition startswith :: "string \<Rightarrow> string \<Rightarrow> bool" where
  "startswith s p = (take (length p) s = p)"

text \<open>\<open>str.lower\<close> on the code points 0 to 255: A to Z and the Latin-1 capitals.\<close>

definition lower_char :: "char \<Rightarrow> char" where
  "lower_char c =
     (let n = (of_char c :: nat)
      in if (65 \<le> n \<and> n \<le> 90) \<or> (192 \<le> n \<and> n \<le> 222 \<and> n \<noteq> 215)
         then char_of (n + 32) else c)"

definition lower :: "string \<Rightarrow> string" where
  "lower s = map lower_char s"

section \<open>Command classification\<close>

datatype verdict = Safe | Risky | Deny

text \<open>
  The rules file is JSON with the shape
  \<open>{"deny": {"patterns": [...]}, "risky": {"prefixes": [...], "patterns": [...]},
  "safe": {"prefixes": [...]}}\<close>; a missing key reads as the empty list.
\<close>

record rules =
  deny_patterns :: "string list"
  risky_prefixes :: "string list"
  risky_patterns :: "string list"
  safe_prefixes :: "string list"

text \<open>What \<open>load_command_rules\<close> finds at \<open>RULES_FILE\<close>.\<close>

datatype rules_file = Rules_Missing | Rules_Malformed | Rules_Json rules

fun load_command_rules :: "rules_file \<Rightarrow> rules option" where
  "load_command_rules Rules_Missing = None"
| "load_command_rules Rules_Malformed = None"
| "load_command_rules (Rules_Json r) = Some r"

subsection \<open>Splitting a chained command\<close>

text \<open>
  \<open>re.split(r'\s*(?:&&|\|\||[;|])\s*', cmd)\<close>. \<open>operator_len\<close> is the alternation
  \<open>&&|\|\||[;|]\<close> tried at the head of the text; \<open>separator_match\<close> is the whole
  pattern tried at the head of the text, returning the text that follows the match.
  Backtracking over the leading \<open>\s*\<close> cannot help, since no operator starts with
  whitespace.
\<close>

fun operator_len :: "string \<Rightarrow> nat option" where
  "operator_len (a # b # cs) =
     (if a = CHR ''&'' \<and> b = CHR ''&'' then Some 2
      else if a = CHR ''|'' \<and> b = CHR ''|'' then Some 2
      else if a = CHR '';'' \<or> a = CHR ''|'' then Some 1
      else None)"
| "operator_len [a] = (if a = CHR '';'' \<or> a = CHR ''|'' then Some 1 else None)"
| "operator_len [] = None"

definition separator_match :: "string \<Rightarrow> string option" where
  "separator_match s =
     (let rest = dropWhile is_space s
      in case operator_len rest of
           None \<Rightarrow> None
         | Some k \<Rightarrow> Some (dropWhile is_space (drop k rest)))"

lemma operator_len_pos: "operator_len s = Some k \<Longrightarrow> 0 < k \<and> s \<noteq> []"
  by (cases s rule: operator_len.cases) (auto split: if_splits)

lemma separator_match_shorter:
  assumes "separator_match s = Some r"
  shows "length r < length s"
proof -
  obtain k where k: "operator_len (dropWhile is_space s) = Some k"
    and r: "r = dropWhile is_space (drop k (dropWhile is_space s))"
    using assms by (auto simp: separator_match_def Let_def split: option.splits)
  from operator_len_pos [OF k] have "0 < k" and "dropWhile is_space s \<noteq> []" by simp_all
  then have "length (drop k (dropWhile is_space s)) < length (dropWhile is_space s)"
    by simp
  moreover have "length r \<le> length (drop k (dropWhile is_space s))"
    unfolding r by (rule length_dropWhile_le)
  moreover have "length (dropWhile is_space s) \<le> length s"
    by (rule length_dropWhile_le)
  ultimately show ?thesis by linarith
qed

text \<open>
  The scan of \<open>re.split\<close>: \<open>acc\<close> holds, reversed, the piece read since the last
  separator. At each position the leftmost match is taken; where none starts, the
  character joins the current piece.
\<close>

function re_split :: "string \<Rightarrow> string \<Rightarrow> string list" where
  "re_split acc [] = [rev acc]"
| "re_split acc (c # cs) =
     (case separator_match (c # cs) of
        Some rest \<Rightarrow> rev acc # re_split [] rest
      | None \<Rightarrow> re_split (c # acc) cs)"
  by pat_completeness auto
termination
  by (relation "measure (\<lambda>(acc, s). length s)")
     (auto dest: separator_match_shorter)

definition split_chained_commands :: "string \<Rightarrow> string list" where
  "split_chained_commands cmd =
     map strip (filter (\<lambda>s. strip s \<noteq> []) (re_split [] cmd))"

subsection \<open>Rating one segment, and the whole command\<close>

text \<open>
  \<open>re.search\<close> is a parameter: \<open>re_search pattern text\<close> says whether the pattern
  matches somewhere in the text. The patterns of a loaded rules file are taken to be
  valid regular expressions, so the search always answers.
\<close>

type_synonym regex_search = "string \<Rightarrow> string \<Rightarrow> bool"

definition prefix_hit :: "string \<Rightarrow> string \<Rightarrow> bool" where
  "prefix_hit cmd_stripped prefix =
     (cmd_stripped = prefix \<or> startswith cmd_stripped (prefix @ '' ''))"

definition classify_single :: "regex_search \<Rightarrow> string \<Rightarrow> rules \<Rightarrow> verdict" where
  "classify_single re_search cmd rs =
     (let cmd_stripped = strip cmd
      in if list_ex (\<lambda>pattern. re_search pattern cmd_stripped) (deny_patterns rs) then Deny
         else if list_ex (prefix_hit cmd_stripped) (risky_prefixes rs) then Risky
         else if list_ex (\<lambda>pattern. re_search pattern cmd_stripped) (risky_patterns rs) then Risky
         else if list_ex (prefix_hit cmd_stripped) (safe_prefixes rs) then Safe
         else Risky)"

text \<open>The loop of \<open>classify_command\<close> over the segments, \<open>worst\<close> being its variable.\<close>

fun classify_loop :: "regex_search \<Rightarrow> rules \<Rightarrow> verdict \<Rightarrow> string list \<Rightarrow> verdict" where
  "classify_loop re_search rs worst [] = worst"
| "classify_loop re_search rs worst (segment # segments) =
     (let rating = classify_single re_search segment rs
      in if rating = Deny then Deny
         else if rating = Risky then classify_loop re_search rs Risky segments
         else classify_loop re_search rs worst segments)"

text \<open>
  The segments that loop hands to \<open>_classify_single\<close> before it returns, in order:
  the same control flow, recording the calls instead of the verdict.
\<close>

fun segments_scored :: "regex_search \<Rightarrow> rules \<Rightarrow> string list \<Rightarrow> string list" where
  "segments_scored re_search rs [] = []"
| "segments_scored re_search rs (segment # segments) =
     (if classify_single re_search segment rs = Deny then [segment]
      else segment # segments_scored re_search rs segments)"

definition classify_command :: "rules_file \<Rightarrow> regex_search \<Rightarrow> string \<Rightarrow> verdict" where
  "classify_command file re_search cmd =
     (case load_command_rules file of
        None \<Rightarrow> Risky
      | Some rs \<Rightarrow> classify_loop re_search rs Safe (split_chained_commands cmd))"

section \<open>The approval hook\<close>

subsection \<open>Configuration\<close>

definition POLL_INTERVAL :: nat where
  "POLL_INTERVAL = 2"

definition TIMEOUT :: nat where
  "TIMEOUT = 300"

definition APPROVE_REACTIONS :: "string list" where
  "APPROVE_REACTIONS = [''+1'', ''thumbsup'']"

definition DENY_REACTIONS :: "string list" where
  "DENY_REACTIONS = [''-1'', ''thumbsdown'']"

definition APPROVE_KEYWORDS :: "string list" where
  "APPROVE_KEYWORDS =
     [''ok'', ''okay'', ''approve'', ''approved'', ''lgtm'', ''yes'', ''go ahead'', ''go'',
      ''yep'', ''yup'', ''sure'', ''do it'', ''proceed'', ''ship it'', ''y'']"

definition FOOTER_TEXT :: string where
  "FOOTER_TEXT =
     '':thumbsup: = approve | :thumbsdown: = deny | _Reply in thread with feedback_''"

subsection \<open>Reading the two channels\<close>

datatype decision = Allow | Refuse

text \<open>
  \<open>Allow\<close> and \<open>Refuse\<close> are the strings \<open>"allow"\<close> and \<open>"deny"\<close> that
  \<open>check_reactions\<close> and \<open>check_thread_replies\<close> return.

  The answer of \<open>reactions.get\<close>: its \<open>ok\<close> flag and the names of the reactions on the
  message, in order (a reaction without a name reads as the empty string).
\<close>

record reactions_response =
  reactions_ok :: bool
  reaction_names :: "string list"

text \<open>\<open>name.split("::")[0]\<close>: the text before the first \<open>::\<close>.\<close>

fun before_colons :: "string \<Rightarrow> string" where
  "before_colons (a # b # cs) =
     (if a = CHR '':'' \<and> b = CHR '':'' then [] else a # before_colons (b # cs))"
| "before_colons cs = cs"

fun scan_reactions :: "string list \<Rightarrow> decision option" where
  "scan_reactions [] = None"
| "scan_reactions (reaction # reactions) =
     (let name = before_colons reaction
      in if name \<in> set APPROVE_REACTIONS then Some Allow
         else if name \<in> set DENY_REACTIONS then Some Refuse
         else scan_reactions reactions)"

definition check_reactions :: "reactions_response \<Rightarrow> decision option" where
  "check_reactions resp =
     (if \<not> reactions_ok resp then None else scan_reactions (reaction_names resp))"

text \<open>
  One message of \<open>conversations.replies\<close>: \<open>msg.get("user", "")\<close>,
  \<open>msg.get("subtype")\<close> and \<open>msg.get("text", "")\<close>.
\<close>

record message =
  msg_user :: string
  msg_subtype :: "string option"
  msg_text :: string

record replies_response =
  replies_ok :: bool
  replies_messages :: "message list"

text \<open>The inner loop over \<open>APPROVE_KEYWORDS\<close>, on the lower-cased text.\<close>

definition approval_keyword :: "string \<Rightarrow> bool" where
  "approval_keyword text_lower =
     list_ex (\<lambda>keyword. text_lower = keyword \<or> startswith text_lower (keyword @ '' '') \<or>
                         startswith text_lower (keyword @ '','')) APPROVE_KEYWORDS"

text \<open>\<open>bot_user_id and user == bot_user_id\<close>, the bot's id being \<open>None\<close> when
  \<open>auth.test\<close> failed.\<close>

definition is_bot_user :: "string option \<Rightarrow> string \<Rightarrow> bool" where
  "is_bot_user bot_user_id user =
     (case bot_user_id of None \<Rightarrow> False | Some b \<Rightarrow> b \<noteq> [] \<and> user = b)"

text \<open>
  The loop of \<open>check_thread_replies\<close> over \<open>messages[1:]\<close>. The result \<open>None\<close> is the
  pair \<open>(None, None)\<close> of the source, \<open>Some (d, text)\<close> the pair \<open>(d, text)\<close>.
\<close>

fun scan_replies :: "string option \<Rightarrow> message list \<Rightarrow> (decision \<times> string) option" where
  "scan_replies bot_user_id [] = None"
| "scan_replies bot_user_id (msg # msgs) =
     (if is_bot_user bot_user_id (msg_user msg) then scan_replies bot_user_id msgs
      else if msg_subtype msg = Some ''bot_message'' then scan_replies bot_user_id msgs
      else let text = strip (msg_text msg)
           in if text = [] then scan_replies bot_user_id msgs
              else let text_lower = strip (lower text)
                   in if approval_keyword text_lower then Some (Allow, text)
                      else Some (Refuse, text))"

definition check_thread_replies ::
  "replies_response \<Rightarrow> string option \<Rightarrow> (decision \<times> string) option" where
  "check_thread_replies resp bot_user_id =
     (if \<not> replies_ok resp then None
      else scan_replies bot_user_id (drop 1 (replies_messages resp)))"

text \<open>
  The claim's reading of a qualifying reply: not the bot's own, not of the bot subtype,
  with text left once stripped.
\<close>

definition human_reply :: "string option \<Rightarrow> message \<Rightarrow> bool" where
  "human_reply bot_user_id msg =
     (\<not> is_bot_user bot_user_id (msg_user msg) \<and>
      msg_subtype msg \<noteq> Some ''bot_message'' \<and>
      strip (msg_text msg) \<noteq> [])"

text \<open>
  The claim's reading of an approving text: without regard to case, it is a keyword, or
  starts with a keyword and then a space or a comma.
\<close>

definition affirmative :: "string \<Rightarrow> bool" where
  "affirmative reply_text =
     list_ex (\<lambda>keyword. lower reply_text = keyword \<or>
                         startswith (lower reply_text) (keyword @ '' '') \<or>
                         startswith (lower reply_text) (keyword @ '','')) APPROVE_KEYWORDS"

subsection \<open>Effects of the hook\<close>

text \<open>
  \<open>s.replace(old, new)\<close>: the occurrences of \<open>old\<close> are replaced from the left,
  without overlap; an empty \<open>old\<close> puts \<open>new\<close> before every character and at the end.
\<close>

function str_replace :: "string \<Rightarrow> string \<Rightarrow> string \<Rightarrow> string" where
  "str_replace s old new =
     (if old = [] then new @ concat (map (\<lambda>c. c # new) s)
      else if s = [] then []
      else if startswith s old then new @ str_replace (drop (length old) s) old new
      else hd s # str_replace (tl s) old new)"
  by pat_completeness auto
termination
  by (relation "measure (\<lambda>(s, old, new). length s)") auto

declare str_replace.simps [simp del]

text \<open>The JSON object that \<open>save_pending\<close> writes to \<open>PENDING_FILE\<close>.\<close>

record pending =
  pending_msg_ts :: string
  pending_channel :: string
  pending_original_text :: string
  pending_timestamp :: nat

datatype pending_file = No_Pending | Pending_Malformed | Pending_Json pending

text \<open>What the hook prints before it exits: the permission decision and its reason.\<close>

datatype hook_output = Permission decision string

text \<open>
  The state the hook acts on: the \<open>chat.postMessage\<close> calls (text and thread), the
  \<open>chat.update\<close> calls (message and text), both in order, and the pending file.
\<close>

record hook_state =
  chat_posts :: "(string \<times> string option) list"
  chat_updates :: "(string \<times> string) list"
  pending_file :: pending_file

record config =
  SLACK_BOT_TOKEN :: string
  SLACK_CHANNEL_ID :: string

definition update_message :: "string \<Rightarrow> string \<Rightarrow> hook_state \<Rightarrow> hook_state" where
  "update_message ts txt st = st\<lparr>chat_updates := chat_updates st @ [(ts, txt)]\<rparr>"

definition save_pending :: "config \<Rightarrow> string \<Rightarrow> string \<Rightarrow> nat \<Rightarrow> hook_state \<Rightarrow> hook_state" where
  "save_pending cfg msg_ts original_text now st =
     st\<lparr>pending_file := Pending_Json
          \<lparr>pending_msg_ts = msg_ts, pending_channel = SLACK_CHANNEL_ID cfg,
           pending_original_text = original_text, pending_timestamp = now\<rparr>\<rparr>"

definition clear_pending :: "hook_state \<Rightarrow> hook_state" where
  "clear_pending st = st\<lparr>pending_file := No_Pending\<rparr>"

definition resolve_pending :: "config \<Rightarrow> hook_state \<Rightarrow> hook_state" where
  "resolve_pending cfg st =
     (case pending_file st of
        No_Pending \<Rightarrow> st
      | Pending_Malformed \<Rightarrow> clear_pending st
      | Pending_Json p \<Rightarrow>
          clear_pending
            (if pending_msg_ts p \<noteq> [] \<and> SLACK_BOT_TOKEN cfg \<noteq> []
             then update_message (pending_msg_ts p)
                    (str_replace (pending_original_text p) FOOTER_TEXT
                       '':white_check_mark: *Approved via terminal*'') st
             else st))"

subsection \<open>The polling loop\<close>

text \<open>
  What one turn of the loop meets: the answers of \<open>reactions.get\<close> and of
  \<open>conversations.replies\<close>, and the time, beyond the sleep of \<open>POLL_INTERVAL\<close>, that
  the turn takes. The clock is read in whole seconds.
\<close>

record poll_cycle =
  cycle_latency :: nat
  cycle_reactions :: reactions_response
  cycle_replies :: replies_response

text \<open>The three ways the loop ends; the text is the \<open>permissionDecisionReason\<close>.\<close>

datatype session_outcome = Allowed string | Denied string | TimedOut

text \<open>
  \<open>while time.time() - start < TIMEOUT\<close>: \<open>i\<close> counts the turns and \<open>elapsed\<close> is
  \<open>time.time() - start\<close> at the test.
\<close>

function poll_loop ::
  "(nat \<Rightarrow> poll_cycle) \<Rightarrow> string option \<Rightarrow> string \<Rightarrow> string \<Rightarrow> nat \<Rightarrow> nat \<Rightarrow> hook_state \<Rightarrow>
   session_outcome \<times> hook_state" where
  "poll_loop cycles bot_user_id msg_ts message_text i elapsed st =
     (if elapsed < TIMEOUT then
        (case check_reactions (cycle_reactions (cycles i)) of
           Some Allow \<Rightarrow>
             (Allowed ''Approved via Slack'',
              clear_pending (update_message msg_ts
                (str_replace message_text FOOTER_TEXT
                   '':white_check_mark: *Approved via Slack*'') st))
         | Some Refuse \<Rightarrow>
             (Denied ''Denied via Slack'',
              clear_pending (update_message msg_ts
                (str_replace message_text FOOTER_TEXT
                   '':no_entry_sign: *Denied via Slack*'') st))
         | None \<Rightarrow>
             (case check_thread_replies (cycle_replies (cycles i)) bot_user_id of
                Some (Allow, reply_text) \<Rightarrow>
                  (Allowed (if reply_text \<noteq> []
                            then ''Approved via Slack thread. User feedback: '' @ reply_text
                            else ''Approved via Slack thread''),
                   clear_pending (update_message msg_ts
                     (str_replace message_text FOOTER_TEXT
                        '':white_check_mark: *Approved via thread reply*'') st))
              | Some (Refuse, reply_text) \<Rightarrow>
                  (Denied (''User feedback: '' @ reply_text),
                   clear_pending (update_message msg_ts
                     (str_replace message_text FOOTER_TEXT
                        ('':speech_balloon: *Denied with feedback:* '' @ reply_text)) st))
              | None \<Rightarrow>
                  poll_loop cycles bot_user_id msg_ts message_text (Suc i)
                    (elapsed + POLL_INTERVAL + cycle_latency (cycles i)) st))
      else
        (TimedOut,
         update_message msg_ts
           (str_replace message_text FOOTER_TEXT
              '':hourglass: *Waiting for terminal approval...*'') st))"
  by pat_completeness auto
termination
  by (relation "measure (\<lambda>(cycles, bot_user_id, msg_ts, message_text, i, elapsed, st).
        TIMEOUT - elapsed)")
     (auto simp: POLL_INTERVAL_def)

declare poll_loop.simps [simp del]

subsection \<open>The hook\<close>

text \<open>
  What the hook meets at Slack: the \<open>ts\<close> that \<open>chat.postMessage\<close> answers (\<open>None\<close>
  when the post fails), the user id that \<open>auth.test\<close> answers, the time at which the
  pending file is written, and the turns of the loop.
\<close>

record slack_world =
  post_answer :: "string option"
  auth_user_id :: "string option"
  save_time :: nat
  poll_cycles :: "nat \<Rightarrow> poll_cycle"

text \<open>
  The part of \<open>main\<close> after the request is posted: the pending file is written, the
  bot's id is fetched, and the loop runs until a decision or the timeout.
\<close>

definition approval_session ::
  "config \<Rightarrow> slack_world \<Rightarrow> string \<Rightarrow> string \<Rightarrow> hook_state \<Rightarrow> session_outcome \<times> hook_state" where
  "approval_session cfg world msg_ts message_text st =
     poll_loop (poll_cycles world) (auth_user_id world) msg_ts message_text 0 0
       (save_pending cfg msg_ts message_text (save_time world) st)"

text \<open>
  The hook's input: \<open>hook_input.get("tool_name", "Unknown")\<close> and
  \<open>tool_input.get("command")\<close>. \<open>message_text\<close> is what \<open>format_tool_request\<close>
  renders, \<open>thread_ts\<close> the variable \<open>SLACK_THREAD_TS\<close>, \<open>stdin\<close> is \<open>None\<close> when the
  input is not JSON. Every path exits with status 0; the result is what was printed.
\<close>

record hook_input =
  tool_name :: string
  tool_command :: "string option"

definition post_message ::
  "slack_world \<Rightarrow> string \<Rightarrow> string option \<Rightarrow> hook_state \<Rightarrow> string option \<times> hook_state" where
  "post_message world txt thread_ts st =
     (post_answer world, st\<lparr>chat_posts := chat_posts st @ [(txt, thread_ts)]\<rparr>)"

definition truthy :: "string option \<Rightarrow> bool" where
  "truthy v = (case v of None \<Rightarrow> False | Some s \<Rightarrow> s \<noteq> [])"

definition request_approval ::
  "config \<Rightarrow> slack_world \<Rightarrow> string \<Rightarrow> string option \<Rightarrow> hook_state \<Rightarrow>
   hook_output option \<times> hook_state" where
  "request_approval cfg world message_text thread_ts st =
     (let (msg_ts, st1) =
            post_message world message_text (if truthy thread_ts then thread_ts else None) st
      in if \<not> truthy msg_ts then (None, st1)
         else case approval_session cfg world (the msg_ts) message_text st1 of
                (Allowed reason, st2) \<Rightarrow> (Some (Permission Allow reason), st2)
              | (Denied reason, st2) \<Rightarrow> (Some (Permission Refuse reason), st2)
              | (TimedOut, st2) \<Rightarrow> (None, st2))"

definition main ::
  "bool \<Rightarrow> config \<Rightarrow> rules_file \<Rightarrow> regex_search \<Rightarrow> slack_world \<Rightarrow> hook_input option \<Rightarrow>
   string \<Rightarrow> string option \<Rightarrow> hook_state \<Rightarrow> hook_output option \<times> hook_state" where
  "main resolve cfg file re_search world stdin message_text thread_ts st =
     (if resolve then (None, resolve_pending cfg st)
      else case stdin of
        None \<Rightarrow> (None, st)
      | Some hook_input \<Rightarrow>
          if SLACK_BOT_TOKEN cfg = [] \<or> SLACK_CHANNEL_ID cfg = [] then (None, st)
          else if tool_name hook_input = ''Bash'' \<and> truthy (tool_command hook_input) then
            (case classify_command file re_search (the (tool_command hook_input)) of
               Safe \<Rightarrow> (Some (Permission Allow ''Auto-approved: safe command''), st)
             | Deny \<Rightarrow> (Some (Permission Refuse ''Blocked: command matches deny rules''), st)
             | Risky \<Rightarrow> request_approval cfg world message_text thread_ts st)
          else request_approval cfg world message_text thread_ts st)"

section \<open>The chat daemon\<close>

subsection \<open>Session storage\<close>

definition SESSION_MAX_AGE :: rat where
  "SESSION_MAX_AGE = 86400"

text \<open>
  One entry of \<open>sessions.json\<close>. \<open>time.time()\<close> is read as a rational number of
  seconds; an entry without \<open>last_active\<close> reads as 0, as \<open>info.get("last_active", 0)\<close>
  does.
\<close>

record session_info =
  session_id :: string
  project_dir :: string
  last_active :: "rat option"

definition get_last_active :: "session_info \<Rightarrow> rat" where
  "get_last_active info = (case last_active info of None \<Rightarrow> 0 | Some t \<Rightarrow> t)"

text \<open>What is found at \<open>SESSIONS_FILE\<close>: no file, a file that is not JSON, or the table.\<close>

datatype sessions_file =
  Sessions_Missing | Sessions_Malformed | Sessions_Json "string \<Rightarrow> session_info option"

fun load_sessions :: "sessions_file \<Rightarrow> (string \<Rightarrow> session_info option)" where
  "load_sessions Sessions_Missing = Map.empty"
| "load_sessions Sessions_Malformed = Map.empty"
| "load_sessions (Sessions_Json sessions) = sessions"

definition save_sessions :: "(string \<Rightarrow> session_info option) \<Rightarrow> sessions_file" where
  "save_sessions sessions = Sessions_Json sessions"

definition get_session :: "sessions_file \<Rightarrow> string \<Rightarrow> session_info option" where
  "get_session file thread_ts = load_sessions file thread_ts"

text \<open>
  \<open>set_session\<close> reads the clock twice: \<open>now\<close> for the entry it stores and \<open>later\<close>
  for the cutoff. The dictionary comprehension keeps the entries newer than the cutoff.
\<close>

definition set_session ::
  "string \<Rightarrow> string \<Rightarrow> string \<Rightarrow> rat \<Rightarrow> rat \<Rightarrow> sessions_file \<Rightarrow> sessions_file" where
  "set_session thread_ts sid dir now later file =
     (let sessions = (load_sessions file)
            (thread_ts \<mapsto> \<lparr>session_id = sid, project_dir = dir, last_active = Some now\<rparr>);
          cutoff = later - SESSION_MAX_AGE
      in save_sessions
           (\<lambda>ts. case sessions ts of
                    None \<Rightarrow> None
                  | Some info \<Rightarrow> if get_last_active info > cutoff then Some info else None))"

text \<open>\<open>touch_session\<close> writes the file only when the thread has an entry.\<close>

definition touch_session :: "string \<Rightarrow> rat \<Rightarrow> sessions_file \<Rightarrow> sessions_file" where
  "touch_session thread_ts now file =
     (let sessions = load_sessions file
      in case sessions thread_ts of
           None \<Rightarrow> file
         | Some info \<Rightarrow> save_sessions (sessions (thread_ts \<mapsto> info\<lparr>last_active := Some now\<rparr>)))"

subsection \<open>Running the agent\<close>

text \<open>
  How \<open>subprocess.run\<close> ends: one of the three exceptions that \<open>run_claude\<close>
  catches, or a finished process with its output and error streams.
\<close>

datatype subprocess_result =
  Timeout_Expired | File_Not_Found | Other_Exception string | Completed string string

text \<open>
  A field of the agent's JSON output, as \<open>output.get\<close> sees it: the key is absent, or
  its value is \<open>null\<close>, or its value is a string.
\<close>

datatype json_field = Absent | Null | Str string

record claude_output =
  out_session_id :: json_field
  out_result :: json_field
  out_content :: json_field
  out_text :: json_field
  out_dump :: string

text \<open>
  \<open>output.get(key, default)\<close> for a session id, and for a text, where \<open>None\<close> and
  the empty string are both false in the tests that follow.
\<close>

fun get_id :: "json_field \<Rightarrow> string option \<Rightarrow> string option" where
  "get_id Absent dflt = dflt"
| "get_id Null dflt = None"
| "get_id (Str s) dflt = Some s"

fun get_text :: "json_field \<Rightarrow> string \<Rightarrow> string" where
  "get_text Absent dflt = dflt"
| "get_text Null dflt = []"
| "get_text (Str s) dflt = s"

text \<open>
  \<open>run_claude\<close>, from the result of the subprocess on. \<open>json_loads\<close> is
  \<open>json.loads\<close> on the stripped output, \<open>None\<close> for a \<open>JSONDecodeError\<close>;
  \<open>out_dump\<close> is \<open>json.dumps(output, indent=2)\<close>. The result is the response text
  and the new session id.
\<close>

definition run_claude ::
  "(string \<Rightarrow> claude_output option) \<Rightarrow> subprocess_result \<Rightarrow> string option \<Rightarrow>
   string \<times> string option" where
  "run_claude json_loads result sid =
     (case result of
        Timeout_Expired \<Rightarrow> ('':warning: Claude timed out after 10 minutes.'', sid)
      | File_Not_Found \<Rightarrow>
          ('':x: `claude` CLI not found. Is it installed and on PATH?'', sid)
      | Other_Exception exc \<Rightarrow> ('':x: Error running Claude: '' @ exc, sid)
      | Completed out err \<Rightarrow>
          (let stdout = strip out
           in if stdout = [] then
                (let stderr = strip err
                 in if stderr \<noteq> [] then
                      ('':warning: Claude returned no output.'' @ [CHR 0x0A] @ ''```'' @
                       [CHR 0x0A] @ take 2000 stderr @ [CHR 0x0A] @ ''```'', sid)
                    else ('':warning: Claude returned no output.'', sid))
              else
                (case json_loads stdout of
                   None \<Rightarrow> (take 4000 stdout, sid)
                 | Some output \<Rightarrow>
                     (let new_session_id = get_id (out_session_id output) sid;
                          response_text = get_text (out_result output) [];
                          response_text =
                            (if response_text = []
                             then get_text (out_content output) (get_text (out_text output) [])
                             else response_text);
                          response_text =
                            (if response_text = [] then take 4000 (out_dump output)
                             else response_text)
                      in (response_text, new_session_id)))))"

subsection \<open>Handling one message\<close>

text \<open>
  What \<open>_process_message\<close> meets: the subprocess, asked with a prompt, a directory
  and the session to resume; the JSON reader; \<open>resolve_project_and_prompt\<close>; the
  \<open>ts\<close> answered to the "thinking" post; and the two clock readings of \<open>set_session\<close>
  (\<open>touch_session\<close> reads the first).
\<close>

record daemon_world =
  agent :: "string \<Rightarrow> string \<Rightarrow> string option \<Rightarrow> subprocess_result"
  json_loads :: "string \<Rightarrow> claude_output option"
  resolve_project_and_prompt :: "string \<Rightarrow> string \<times> string"
  thinking_answer :: "string option"
  write_time :: rat
  cutoff_time :: rat

text \<open>
  The state \<open>_process_message\<close> acts on: the sessions file, the agent invocations
  (prompt, directory, resumed session), the messages posted to the thread, and the
  messages deleted.
\<close>

record daemon_state =
  sessions :: sessions_file
  agent_calls :: "(string \<times> string \<times> string option) list"
  thread_posts :: "(string \<times> string) list"
  deleted :: "string list"

text \<open>The posting loop: the response goes out in chunks of 4000 characters.\<close>

function chunks :: "string \<Rightarrow> string list" where
  "chunks remaining =
     (if remaining = [] then [] else take 4000 remaining # chunks (drop 4000 remaining))"
  by pat_completeness auto
termination
  by (relation "measure length") auto

declare chunks.simps [simp del]

definition invoke_agent ::
  "daemon_world \<Rightarrow> string \<Rightarrow> string \<Rightarrow> string option \<Rightarrow> daemon_state \<Rightarrow>
   (string \<times> string option) \<times> daemon_state" where
  "invoke_agent world prompt dir sid st =
     (run_claude (json_loads world) (agent world prompt dir sid) sid,
      st\<lparr>agent_calls := agent_calls st @ [(prompt, dir, sid)]\<rparr>)"

definition process_message ::
  "daemon_world \<Rightarrow> string \<Rightarrow> string \<Rightarrow> bool \<Rightarrow> daemon_state \<Rightarrow> daemon_state" where
  "process_message world txt thread_ts is_thread_reply st =
     (let st1 = st\<lparr>thread_posts := thread_posts st @
                   [('':hourglass_flowing_sand: Claude is thinking...'', thread_ts)]\<rparr>;
          thinking_ts = thinking_answer world;
          session = (if is_thread_reply then get_session (sessions st1) thread_ts else None);
          (response, st2) =
            (case session of
               Some info \<Rightarrow>
                 (let ((response, new_session_id), st') =
                        invoke_agent world txt (project_dir info) (Some (session_id info)) st1
                  in (response,
                      st'\<lparr>sessions :=
                        (if truthy new_session_id
                         then set_session thread_ts (the new_session_id) (project_dir info)
                                (write_time world) (cutoff_time world) (sessions st')
                         else touch_session thread_ts (write_time world) (sessions st'))\<rparr>))
             | None \<Rightarrow>
                 (let (dir, prompt) = resolve_project_and_prompt world txt;
                      ((response, new_session_id), st') =
                        invoke_agent world prompt dir None st1
                  in (response,
                      if truthy new_session_id
                      then st'\<lparr>sessions :=
                             set_session thread_ts (the new_session_id) dir
                               (write_time world) (cutoff_time world) (sessions st')\<rparr>
                      else st')));
          st3 = (if truthy thinking_ts then st2\<lparr>deleted := deleted st2 @ [the thinking_ts]\<rparr>
                 else st2)
      in st3\<lparr>thread_posts := thread_posts st3 @ map (\<lambda>chunk. (chunk, thread_ts)) (chunks response)\<rparr>)"

text \<open>
  The claim's reading of an invocation that yields no new session id: the subprocess
  raised, or printed nothing, or printed something that is not JSON, or printed JSON
  without a \<open>session_id\<close>.
\<close>

definition no_new_session_id ::
  "(string \<Rightarrow> claude_output option) \<Rightarrow> subprocess_result \<Rightarrow> bool" where
  "no_new_session_id loads result =
     (case result of
        Completed out err \<Rightarrow>
          strip out = [] \<or>
          (case loads (strip out) of
             None \<Rightarrow> True
           | Some output \<Rightarrow> out_session_id output = Absent)
      | _ \<Rightarrow> True)"

subsection \<open>One handler per thread\<close>

text \<open>
  \<open>handle_message\<close> runs in a thread of its own for every inbound event. Where a
  handler stands: started and not yet through the first \<open>with _active_threads_lock\<close>
  block; inside \<open>_process_message\<close>, before or after its call of \<open>run_claude\<close>; returned
  after the \<open>finally\<close> block, with the agent invoked or, \<open>_process_message\<close> having
  raised before that, without; or returned at once because the thread was taken.
\<close>

datatype phase = Waiting | Running | Invoked | Finished | Aborted | Dropped

text \<open>
  The dispatcher: the set \<open>_active_threads\<close>, the handlers started so far with their
  thread identity and phase, and the handlers that have invoked the agent, in order.
\<close>

record dispatcher =
  active_threads :: "string set"
  handlers :: "(string \<times> phase) list"
  invocations :: "nat list"

definition initial_dispatcher :: dispatcher where
  "initial_dispatcher = \<lparr>active_threads = {}, handlers = [], invocations = []\<rparr>"

text \<open>
  The steps the threads interleave. A block under the lock is one step, since the lock
  lets no other handler into its own block meanwhile: \<open>Enter\<close> is the test and the
  \<open>add\<close>, \<open>Release\<close> the \<open>discard\<close> of the \<open>finally\<close> block. \<open>Invoke\<close> is the one
  call of \<open>run_claude\<close> that \<open>_process_message\<close> makes; \<open>Abort\<close> is
  \<open>_process_message\<close> raising before that call, followed by the same \<open>discard\<close>. A
  step that the handler named is not ready for changes nothing.
\<close>

datatype event = Arrive string | Enter nat | Invoke nat | Release nat | Abort nat

definition in_phase :: "dispatcher \<Rightarrow> nat \<Rightarrow> phase \<Rightarrow> bool" where
  "in_phase d i p = (i < length (handlers d) \<and> snd (handlers d ! i) = p)"

definition thread_of :: "dispatcher \<Rightarrow> nat \<Rightarrow> string" where
  "thread_of d i = fst (handlers d ! i)"

definition set_phase :: "nat \<Rightarrow> phase \<Rightarrow> dispatcher \<Rightarrow> dispatcher" where
  "set_phase i p d = d\<lparr>handlers := (handlers d)[i := (thread_of d i, p)]\<rparr>"

fun step :: "event \<Rightarrow> dispatcher \<Rightarrow> dispatcher" where
  "step (Arrive thread_ts) d = d\<lparr>handlers := handlers d @ [(thread_ts, Waiting)]\<rparr>"
| "step (Enter i) d =
     (if in_phase d i Waiting then
        (if thread_of d i \<in> active_threads d then set_phase i Dropped d
         else set_phase i Running
                (d\<lparr>active_threads := insert (thread_of d i) (active_threads d)\<rparr>))
      else d)"
| "step (Invoke i) d =
     (if in_phase d i Running
      then set_phase i Invoked (d\<lparr>invocations := invocations d @ [i]\<rparr>)
      else d)"
| "step (Release i) d =
     (if in_phase d i Invoked
      then set_phase i Finished (d\<lparr>active_threads := active_threads d - {thread_of d i}\<rparr>)
      else d)"
| "step (Abort i) d =
     (if in_phase d i Running
      then set_phase i Aborted (d\<lparr>active_threads := active_threads d - {thread_of d i}\<rparr>)
      else d)"

fun run :: "event list \<Rightarrow> dispatcher \<Rightarrow> dispatcher" where
  "run [] d = d"
| "run (e # es) d = run es (step e d)"

text \<open>A handler is being handled while it is inside \<open>_process_message\<close>.\<close>

definition handling :: "dispatcher \<Rightarrow> nat \<Rightarrow> bool" where
  "handling d i = (in_phase d i Running \<or> in_phase d i Invoked)"

definition has_invoked :: "dispatcher \<Rightarrow> nat \<Rightarrow> bool" where
  "has_invoked d i = (in_phase d i Invoked \<or> in_phase d i Finished)"

definition single_flight :: "dispatcher \<Rightarrow> bool" where
  "single_flight d =
     ((\<forall>i. handling d i \<longrightarrow> thread_of d i \<in> active_threads d) \<and>
      (\<forall>i j. handling d i \<and> handling d j \<and> thread_of d i = thread_of d j \<longrightarrow> i = j) \<and>
      distinct (invocations d) \<and>
      (\<forall>i. i \<in> set (invocations d) \<longleftrightarrow> has_invoked d i))"

section \<open>Concrete inputs\<close>

text \<open>
  A small rule set, and substring search standing in for \<open>re.search\<close> on patterns
  without metacharacters.
\<close>

definition demo_rules :: rules where
  "demo_rules =
     \<lparr>deny_patterns = [''rm -rf /''], risky_prefixes = [''git push''],
      risky_patterns = [''sudo''], safe_prefixes = [''git status'', ''ls'']\<rparr>"

fun contains :: "string \<Rightarrow> string \<Rightarrow> bool" where
  "contains p [] = (p = [])"
| "contains p (c # cs) = (startswith (c # cs) p \<or> contains p cs)"

text \<open>A thread: the request, then replies of the bot, of an app, and of two people.\<close>

definition demo_thread :: "message list" where
  "demo_thread =
     [\<lparr>msg_user = ''UBOT'', msg_subtype = None, msg_text = '':lock: request''\<rparr>,
      \<lparr>msg_user = ''UBOT'', msg_subtype = None, msg_text = ''working''\<rparr>,
      \<lparr>msg_user = ''UAPP'', msg_subtype = Some ''bot_message'', msg_text = ''ok''\<rparr>,
      \<lparr>msg_user = ''U1'', msg_subtype = None, msg_text = ''   ''\<rparr>,
      \<lparr>msg_user = ''U1'', msg_subtype = None, msg_text = '' LGTM, ship it ''\<rparr>,
      \<lparr>msg_user = ''U2'', msg_subtype = None, msg_text = ''no''\<rparr>]"


text \<open>
  A configuration, a rendered request, a Slack at which nobody answers (every fetch
  fails), and one at which the request carries a thumbs-up with a skin tone.
\<close>

definition demo_config :: config where
  "demo_config = \<lparr>SLACK_BOT_TOKEN = ''xoxb-token'', SLACK_CHANNEL_ID = ''C0APPROVALS''\<rparr>"

definition demo_request :: string where
  "demo_request = '':lock: *Claude Code - Approval Needed*'' @ [CHR 0x0A] @ FOOTER_TEXT"

definition quiet_world :: slack_world where
  "quiet_world =
     \<lparr>post_answer = Some ''1700000000.000100'', auth_user_id = Some ''UBOT'',
      save_time = 1700000000,
      poll_cycles = (\<lambda>i. \<lparr>cycle_latency = 0,
         cycle_reactions = \<lparr>reactions_ok = False, reaction_names = []\<rparr>,
         cycle_replies = \<lparr>replies_ok = False, replies_messages = []\<rparr>\<rparr>)\<rparr>"

definition approving_world :: slack_world where
  "approving_world =
     \<lparr>post_answer = Some ''1700000000.000100'', auth_user_id = Some ''UBOT'',
      save_time = 1700000000,
      poll_cycles = (\<lambda>i. \<lparr>cycle_latency = 1,
         cycle_reactions = \<lparr>reactions_ok = True, reaction_names = [''eyes'', ''+1::skin-tone-2'']\<rparr>,
         cycle_replies = \<lparr>replies_ok = True, replies_messages = []\<rparr>\<rparr>)\<rparr>"

text \<open>A session table with an entry last active at time 0 and one at time 190000.\<close>

definition demo_sessions :: sessions_file where
  "demo_sessions = Sessions_Json
     (Map.empty
        (''A'' \<mapsto> \<lparr>session_id = ''s-a'', project_dir = ''/proj/a'', last_active = Some 0\<rparr>,
         ''B'' \<mapsto> \<lparr>session_id = ''s-b'', project_dir = ''/proj/b'', last_active = Some 190000\<rparr>))"

text \<open>A daemon whose agent times out, acting on the table above.\<close>

definition timeout_world :: daemon_world where
  "timeout_world =
     \<lparr>agent = (\<lambda>prompt dir sid. Timeout_Expired), json_loads = (\<lambda>out. None),
      resolve_project_and_prompt = (\<lambda>txt. (''/mnt/c/projects'', txt)),
      thinking_answer = Some ''1700000001.000200'',
      write_time = 200000, cutoff_time = 200001\<rparr>"

definition demo_daemon :: daemon_state where
  "demo_daemon =
     \<lparr>sessions = demo_sessions, agent_calls = [], thread_posts = [], deleted = []\<rparr>"

section \<open>Properties of the classifier\<close>

subsection \<open>Stripping\<close>

lemma dropWhile_strip: "dropWhile is_space (strip s) = strip s"
proof (cases "strip s = []")
  case True
  then show ?thesis by simp
next
  case False
  define t where "t = dropWhile is_space s"
  define u where "u = dropWhile is_space (rev t)"
  have su: "strip s = rev u" by (simp add: strip_def t_def u_def)
  with False have u: "u \<noteq> []" by simp
  then have t: "t \<noteq> []" by (auto simp: u_def)
  then have "\<not> is_space (hd t)" unfolding t_def by (metis hd_dropWhile)
  then have "\<not> is_space (last (rev t))" using t by (simp add: last_rev)
  moreover have "rev t = takeWhile is_space (rev t) @ u" by (simp add: u_def)
  then have "last (rev t) = last u" using u by (metis last_appendR)
  ultimately have "\<not> is_space (hd (rev u))" using u by (simp add: hd_rev)
  then show ?thesis unfolding su by (simp add: dropWhile_eq_self_iff)
qed

lemma strip_idem: "strip (strip s) = strip s"
proof -
  have "strip (strip s) = rev (dropWhile is_space (rev (strip s)))"
    by (simp add: strip_def [of "strip s"] dropWhile_strip)
  also have "rev (strip s) = dropWhile is_space (rev (dropWhile is_space s))"
    by (simp add: strip_def)
  also have "rev (dropWhile is_space (dropWhile is_space (rev (dropWhile is_space s)))) = strip s"
    by (simp add: strip_def)
  finally show ?thesis .
qed

lemma segment_stripped:
  "segment \<in> set (split_chained_commands cmd) \<Longrightarrow> strip segment = segment"
  by (auto simp: split_chained_commands_def strip_idem)

subsection \<open>The loop over the segments\<close>

lemma classify_loop_deny:
  "list_ex (\<lambda>s. classify_single re_search s rs = Deny) segments \<Longrightarrow>
   classify_loop re_search rs worst segments = Deny"
  by (induction segments arbitrary: worst) (auto simp: Let_def)

lemma segments_scored_deny:
  "list_ex (\<lambda>s. classify_single re_search s rs = Deny) segments \<Longrightarrow>
   segments_scored re_search rs segments =
     takeWhile (\<lambda>s. classify_single re_search s rs \<noteq> Deny) segments @
     [hd (dropWhile (\<lambda>s. classify_single re_search s rs \<noteq> Deny) segments)]"
  by (induction segments) auto

lemma classify_single_deny:
  "list_ex (\<lambda>pattern. re_search pattern (strip cmd)) (deny_patterns rs) \<Longrightarrow>
   classify_single re_search cmd rs = Deny"
  by (simp add: classify_single_def)

lemma split_push_rm:
  "split_chained_commands ''git push && rm -rf /tmp/x'' = [''git push'', ''rm -rf /tmp/x'']"
  by (simp add: split_chained_commands_def separator_match_def strip_def is_space_def)

lemma split_ls_sudo:
  "split_chained_commands ''ls -la | sudo tee'' = [''ls -la'', ''sudo tee'']"
  by (simp add: split_chained_commands_def separator_match_def strip_def is_space_def)

text \<open>
  Claim C1. With a loaded rule set, a command one of whose segments matches a deny
  pattern is classified \<open>deny\<close>, whatever the other segments, before or after it, are;
  and the loop stops there: the segments it rates are those before the first segment
  rated \<open>deny\<close>, then that segment, and none after it.
\<close>

theorem classify_command_deny:
  assumes seg: "segment \<in> set (split_chained_commands cmd)"
    and pat: "pattern \<in> set (deny_patterns rs)"
    and hit: "re_search pattern segment"
  shows "classify_command (Rules_Json rs) re_search cmd = Deny \<and>
         segments_scored re_search rs (split_chained_commands cmd) =
           takeWhile (\<lambda>s. classify_single re_search s rs \<noteq> Deny)
             (split_chained_commands cmd) @
           [hd (dropWhile (\<lambda>s. classify_single re_search s rs \<noteq> Deny)
             (split_chained_commands cmd))]"
proof -
  have "re_search pattern (strip segment)"
    using hit segment_stripped [OF seg] by simp
  with pat have "classify_single re_search segment rs = Deny"
    by (intro classify_single_deny) (auto simp: list_ex_iff)
  with seg have ex:
    "list_ex (\<lambda>s. classify_single re_search s rs = Deny) (split_chained_commands cmd)"
    by (auto simp: list_ex_iff)
  show ?thesis
    using classify_loop_deny [OF ex] segments_scored_deny [OF ex]
    by (simp add: classify_command_def)
qed

theorem classify_command_deny_witness:
  "''rm -rf /tmp/x'' \<in> set (split_chained_commands ''git push && rm -rf /tmp/x; ls'') \<and>
   ''rm -rf /'' \<in> set (deny_patterns demo_rules) \<and>
   contains ''rm -rf /'' ''rm -rf /tmp/x'' \<and>
   classify_command (Rules_Json demo_rules) contains ''git push && rm -rf /tmp/x; ls'' = Deny \<and>
   segments_scored contains demo_rules (split_chained_commands ''git push && rm -rf /tmp/x; ls'')
     = [''git push'', ''rm -rf /tmp/x'']"
proof -
  have split: "split_chained_commands ''git push && rm -rf /tmp/x; ls'' =
      [''git push'', ''rm -rf /tmp/x'', ''ls'']"
    by (simp add: split_chained_commands_def separator_match_def strip_def is_space_def)
  have seg: "''rm -rf /tmp/x'' \<in> set (split_chained_commands ''git push && rm -rf /tmp/x; ls'')"
    by (simp add: split)
  have pat: "''rm -rf /'' \<in> set (deny_patterns demo_rules)"
    by (simp add: demo_rules_def)
  have hit: "contains ''rm -rf /'' ''rm -rf /tmp/x''"
    by (simp add: startswith_def)
  have rate: "classify_single contains ''git push'' demo_rules = Risky"
    by (simp add: classify_single_def demo_rules_def strip_def is_space_def prefix_hit_def
        startswith_def)
  have rate': "classify_single contains ''rm -rf /tmp/x'' demo_rules = Deny"
    by (simp add: classify_single_def demo_rules_def strip_def is_space_def prefix_hit_def
        startswith_def)
  from classify_command_deny [of "''rm -rf /tmp/x''" "''git push && rm -rf /tmp/x; ls''"
      "''rm -rf /''" demo_rules contains] seg pat hit
  show ?thesis
    by (simp add: split rate rate')
qed

text \<open>
  Claim C2. When the rules file is missing or is not valid JSON, so that
  \<open>load_command_rules\<close> returns \<open>None\<close>, every command is classified \<open>risky\<close>:
  never \<open>safe\<close>, never \<open>deny\<close>.
\<close>

theorem classify_command_fail_closed:
  "classify_command Rules_Missing re_search cmd = Risky \<and>
   classify_command Rules_Malformed re_search cmd = Risky \<and>
   (load_command_rules file = None \<longrightarrow> classify_command file re_search cmd = Risky)"
  by (simp add: classify_command_def)

theorem classify_command_fail_closed_witness:
  "load_command_rules Rules_Malformed = None \<and>
   classify_command Rules_Malformed contains ''git status'' = Risky \<and>
   classify_command (Rules_Json demo_rules) contains ''git status'' = Safe"
  using classify_command_fail_closed [of contains "''git status''" Rules_Malformed]
  by (simp add: classify_command_def split_chained_commands_def separator_match_def
      strip_def is_space_def classify_single_def demo_rules_def prefix_hit_def startswith_def)

text \<open>
  Claim C3. With a loaded rule set, a segment is rated in this order: \<open>deny\<close> if a deny
  pattern matches somewhere in it; otherwise \<open>risky\<close> if it equals a risky prefix or
  starts with one followed by a space; otherwise \<open>risky\<close> if a risky pattern matches;
  otherwise \<open>safe\<close> if it equals a safe prefix or starts with one followed by a space;
  otherwise \<open>risky\<close>. The safe prefixes are never given to the regular-expression
  search: two searches that agree on the deny and risky patterns give the same rating.
\<close>

theorem classify_single_order:
  assumes seg: "segment \<in> set (split_chained_commands cmd)"
  shows "classify_single re_search segment rs =
           (if list_ex (\<lambda>pattern. re_search pattern segment) (deny_patterns rs) then Deny
            else if list_ex (\<lambda>prefix. segment = prefix \<or> startswith segment (prefix @ '' ''))
                      (risky_prefixes rs) then Risky
            else if list_ex (\<lambda>pattern. re_search pattern segment) (risky_patterns rs) then Risky
            else if list_ex (\<lambda>prefix. segment = prefix \<or> startswith segment (prefix @ '' ''))
                      (safe_prefixes rs) then Safe
            else Risky) \<and>
         (\<forall>other_search.
            (\<forall>pattern \<in> set (deny_patterns rs) \<union> set (risky_patterns rs).
               other_search pattern segment = re_search pattern segment) \<longrightarrow>
            classify_single other_search segment rs = classify_single re_search segment rs)"
proof -
  have s: "strip segment = segment" by (rule segment_stripped [OF seg])
  have "prefix_hit segment = (\<lambda>prefix. segment = prefix \<or> startswith segment (prefix @ '' ''))"
    by (rule ext) (simp add: prefix_hit_def)
  then have first: "classify_single re_search segment rs =
           (if list_ex (\<lambda>pattern. re_search pattern segment) (deny_patterns rs) then Deny
            else if list_ex (\<lambda>prefix. segment = prefix \<or> startswith segment (prefix @ '' ''))
                      (risky_prefixes rs) then Risky
            else if list_ex (\<lambda>pattern. re_search pattern segment) (risky_patterns rs) then Risky
            else if list_ex (\<lambda>prefix. segment = prefix \<or> startswith segment (prefix @ '' ''))
                      (safe_prefixes rs) then Safe
            else Risky)"
    by (simp add: classify_single_def s)
  have second: "classify_single other_search segment rs = classify_single re_search segment rs"
    if agree: "\<forall>pattern \<in> set (deny_patterns rs) \<union> set (risky_patterns rs).
               other_search pattern segment = re_search pattern segment" for other_search
  proof -
    from agree have "list_ex (\<lambda>pattern. other_search pattern segment) (deny_patterns rs) =
          list_ex (\<lambda>pattern. re_search pattern segment) (deny_patterns rs)"
      and "list_ex (\<lambda>pattern. other_search pattern segment) (risky_patterns rs) =
          list_ex (\<lambda>pattern. re_search pattern segment) (risky_patterns rs)"
      by (auto simp: list_ex_iff)
    then show ?thesis by (simp add: classify_single_def s)
  qed
  from first second show ?thesis by blast
qed

theorem classify_single_order_witness:
  "''ls -la'' \<in> set (split_chained_commands ''ls -la | sudo tee'') \<and>
   classify_single contains ''ls -la'' demo_rules = Safe \<and>
   classify_single (\<lambda>pattern text. pattern \<noteq> ''ls'' \<and> contains pattern text) ''ls -la''
     demo_rules = Safe"
  using classify_single_order [of "''ls -la''" "''ls -la | sudo tee''" contains demo_rules]
  by (simp add: split_ls_sudo demo_rules_def startswith_def)

text \<open>
  Claim C10. With a loaded rule set, a non-empty command all of whose pieces are empty
  once split and stripped (only whitespace, only separators) is classified \<open>safe\<close>:
  no segment is rated, and the initial value of \<open>worst\<close> is returned.
\<close>

theorem classify_command_no_segments:
  assumes "cmd \<noteq> []"
    and "\<forall>piece \<in> set (re_split [] cmd). strip piece = []"
  shows "classify_command (Rules_Json rs) re_search cmd = Safe \<and>
         segments_scored re_search rs (split_chained_commands cmd) = []"
proof -
  from assms(2) have "filter (\<lambda>s. strip s \<noteq> []) (re_split [] cmd) = []"
    by (simp add: filter_empty_conv)
  then have "split_chained_commands cmd = []"
    by (simp add: split_chained_commands_def)
  then show ?thesis by (simp add: classify_command_def)
qed

theorem classify_command_no_segments_witness:
  "'' ; | && '' \<noteq> [] \<and> map strip (re_split [] '' ; | && '') = [[], [], [], []] \<and>
   classify_command (Rules_Json demo_rules) contains '' ; | && '' = Safe"
  using classify_command_no_segments [of "'' ; | && ''" demo_rules contains]
  by (simp add: separator_match_def strip_def is_space_def)

section \<open>Properties of the reply channel\<close>

lemma is_space_lower_char: "is_space (lower_char c) = is_space c"
  by (simp add: is_space_def lower_char_def Let_def)

lemma dropWhile_lower:
  "dropWhile is_space (map lower_char s) = map lower_char (dropWhile is_space s)"
  by (induction s) (simp_all add: is_space_lower_char)

lemma strip_lower: "strip (lower s) = lower (strip s)"
  by (simp add: strip_def lower_def rev_map dropWhile_lower)

lemma strip_lower_strip: "strip (lower (strip s)) = lower (strip s)"
  by (simp add: strip_lower strip_idem)

lemma approval_keyword_affirmative:
  "approval_keyword (strip (lower (strip s))) = affirmative (strip s)"
  by (simp add: strip_lower_strip approval_keyword_def affirmative_def)

lemma scan_replies_filter:
  "scan_replies bot_user_id msgs =
     (case filter (human_reply bot_user_id) msgs of
        [] \<Rightarrow> None
      | msg # rest \<Rightarrow>
          (if affirmative (strip (msg_text msg)) then Some (Allow, strip (msg_text msg))
           else Some (Refuse, strip (msg_text msg))))"
  by (induction msgs) (simp_all add: human_reply_def Let_def approval_keyword_affirmative)

text \<open>
  Claim C4. \<open>check_thread_replies\<close> passes over the first message (the request
  itself), the bot's own replies (those of the user \<open>bot_user_id\<close>, when that id is
  known), replies of the bot subtype and replies whose text is empty once stripped, and
  decides on the first reply left: \<open>("allow", text)\<close> when
  the stripped text, without regard to case, is an approval keyword or starts with one
  followed by a space or a comma, \<open>("deny", text)\<close> for any other text; and
  \<open>(None, None)\<close> when no such reply is there, or the fetch failed.
\<close>

theorem check_thread_replies_first_human:
  "check_thread_replies resp bot_user_id =
     (if replies_ok resp then
        (case filter (human_reply bot_user_id) (drop 1 (replies_messages resp)) of
           [] \<Rightarrow> None
         | msg # rest \<Rightarrow>
             (if affirmative (strip (msg_text msg)) then Some (Allow, strip (msg_text msg))
              else Some (Refuse, strip (msg_text msg))))
      else None)"
  by (simp add: check_thread_replies_def scan_replies_filter)

lemma lower_lgtm: "lower ''LGTM, ship it'' = ''lgtm, ship it''"
  by code_simp

lemma lower_no: "lower ''no'' = ''no''"
  by code_simp

theorem check_thread_replies_first_human_witness:
  "filter (human_reply (Some ''UBOT'')) (drop 1 demo_thread) =
     [\<lparr>msg_user = ''U1'', msg_subtype = None, msg_text = '' LGTM, ship it ''\<rparr>,
      \<lparr>msg_user = ''U2'', msg_subtype = None, msg_text = ''no''\<rparr>] \<and>
   affirmative ''LGTM, ship it'' \<and>
   check_thread_replies \<lparr>replies_ok = True, replies_messages = demo_thread\<rparr> (Some ''UBOT'')
     = Some (Allow, ''LGTM, ship it'') \<and>
   check_thread_replies \<lparr>replies_ok = True, replies_messages = drop 4 demo_thread\<rparr> (Some ''UBOT'')
     = Some (Refuse, ''no'') \<and>
   check_thread_replies \<lparr>replies_ok = True, replies_messages = take 4 demo_thread\<rparr> (Some ''UBOT'')
     = None"
proof -
  have f: "filter (human_reply (Some ''UBOT'')) (drop (Suc 0) demo_thread) =
     [\<lparr>msg_user = ''U1'', msg_subtype = None, msg_text = '' LGTM, ship it ''\<rparr>,
      \<lparr>msg_user = ''U2'', msg_subtype = None, msg_text = ''no''\<rparr>]"
    by (simp add: demo_thread_def human_reply_def is_bot_user_def strip_def is_space_def)
  have s: "strip '' LGTM, ship it '' = ''LGTM, ship it''"
    by (simp add: strip_def is_space_def)
  have a: "affirmative ''LGTM, ship it''"
    by (simp add: affirmative_def APPROVE_KEYWORDS_def lower_lgtm startswith_def)
  have n: "\<not> affirmative ''no''"
    by (simp add: affirmative_def APPROVE_KEYWORDS_def lower_no startswith_def)
  have g: "filter (human_reply (Some ''UBOT'')) (drop 5 demo_thread) =
     [\<lparr>msg_user = ''U2'', msg_subtype = None, msg_text = ''no''\<rparr>]"
    by (simp add: demo_thread_def human_reply_def is_bot_user_def strip_def is_space_def)
  have h: "filter (human_reply (Some ''UBOT'')) (drop (Suc 0) (take 4 demo_thread)) = []"
    by (simp add: demo_thread_def human_reply_def is_bot_user_def strip_def is_space_def)
  have s': "strip ''no'' = ''no''"
    by (simp add: strip_def is_space_def)
  show ?thesis
    using check_thread_replies_first_human
        [of "\<lparr>replies_ok = True, replies_messages = demo_thread\<rparr>" "Some ''UBOT''"]
      check_thread_replies_first_human
        [of "\<lparr>replies_ok = True, replies_messages = drop 4 demo_thread\<rparr>" "Some ''UBOT''"]
      check_thread_replies_first_human
        [of "\<lparr>replies_ok = True, replies_messages = take 4 demo_thread\<rparr>" "Some ''UBOT''"]
    by (simp add: f g h s s' a n)
qed

section \<open>Properties of the approval session\<close>

lemma poll_loop_no_decision:
  assumes "\<forall>j. i \<le> j \<and> j < TIMEOUT div POLL_INTERVAL \<longrightarrow>
             check_reactions (cycle_reactions (cycles j)) = None \<and>
             check_thread_replies (cycle_replies (cycles j)) bot_user_id = None"
    and "POLL_INTERVAL * i \<le> elapsed"
  shows "poll_loop cycles bot_user_id msg_ts message_text i elapsed st =
           (TimedOut, update_message msg_ts
              (str_replace message_text FOOTER_TEXT
                 '':hourglass: *Waiting for terminal approval...*'') st)"
  using assms
proof (induction cycles bot_user_id msg_ts message_text i elapsed st rule: poll_loop.induct)
  case (1 cycles bot_user_id msg_ts message_text i elapsed st)
  show ?case
  proof (cases "elapsed < TIMEOUT")
    case False
    then show ?thesis by (simp add: poll_loop.simps)
  next
    case True
    with "1.prems"(2) have i: "i < TIMEOUT div POLL_INTERVAL"
      by (simp add: TIMEOUT_def POLL_INTERVAL_def)
    with "1.prems"(1) have r: "check_reactions (cycle_reactions (cycles i)) = None"
      and t: "check_thread_replies (cycle_replies (cycles i)) bot_user_id = None"
      by simp_all
    have "poll_loop cycles bot_user_id msg_ts message_text (Suc i)
            (elapsed + POLL_INTERVAL + cycle_latency (cycles i)) st =
          (TimedOut, update_message msg_ts
              (str_replace message_text FOOTER_TEXT
                 '':hourglass: *Waiting for terminal approval...*'') st)"
    proof (rule "1.IH" [OF True r t])
      show "\<forall>j. Suc i \<le> j \<and> j < TIMEOUT div POLL_INTERVAL \<longrightarrow>
             check_reactions (cycle_reactions (cycles j)) = None \<and>
             check_thread_replies (cycle_replies (cycles j)) bot_user_id = None"
        using "1.prems"(1) by simp
      show "POLL_INTERVAL * Suc i \<le> elapsed + POLL_INTERVAL + cycle_latency (cycles i)"
        using "1.prems"(2) by simp
    qed
    then show ?thesis
      using True r t by (subst poll_loop.simps) simp
  qed
qed

lemma poll_loop_effects:
  "\<exists>closing.
     chat_updates (snd (poll_loop cycles bot_user_id msg_ts message_text i elapsed st)) =
       chat_updates st @ [(msg_ts, str_replace message_text FOOTER_TEXT closing)] \<and>
     chat_posts (snd (poll_loop cycles bot_user_id msg_ts message_text i elapsed st)) =
       chat_posts st \<and>
     pending_file (snd (poll_loop cycles bot_user_id msg_ts message_text i elapsed st)) =
       (if fst (poll_loop cycles bot_user_id msg_ts message_text i elapsed st) = TimedOut
        then pending_file st else No_Pending)"
proof (induction cycles bot_user_id msg_ts message_text i elapsed st rule: poll_loop.induct)
  case (1 cycles bot_user_id msg_ts message_text i elapsed st)
  let ?run = "poll_loop cycles bot_user_id msg_ts message_text i elapsed st"
  show ?case
  proof (cases "elapsed < TIMEOUT")
    case False
    then have "?run = (TimedOut, update_message msg_ts
        (str_replace message_text FOOTER_TEXT
           '':hourglass: *Waiting for terminal approval...*'') st)"
      by (subst poll_loop.simps) simp
    then show ?thesis
      by (auto simp: update_message_def)
  next
    case True
    show ?thesis
    proof (cases "check_reactions (cycle_reactions (cycles i))")
      case (Some d)
      show ?thesis
      proof (cases d)
        case Allow
        with True Some have "?run = (Allowed ''Approved via Slack'',
              clear_pending (update_message msg_ts
                (str_replace message_text FOOTER_TEXT
                   '':white_check_mark: *Approved via Slack*'') st))"
          by (subst poll_loop.simps) simp
        then show ?thesis
          by (auto simp: update_message_def clear_pending_def)
      next
        case Refuse
        with True Some have "?run = (Denied ''Denied via Slack'',
              clear_pending (update_message msg_ts
                (str_replace message_text FOOTER_TEXT
                   '':no_entry_sign: *Denied via Slack*'') st))"
          by (subst poll_loop.simps) simp
        then show ?thesis
          by (auto simp: update_message_def clear_pending_def)
      qed
    next
      case None
      note r = this
      show ?thesis
      proof (cases "check_thread_replies (cycle_replies (cycles i)) bot_user_id")
        case None
        with True r have "?run = poll_loop cycles bot_user_id msg_ts message_text (Suc i)
                    (elapsed + POLL_INTERVAL + cycle_latency (cycles i)) st"
          by (subst poll_loop.simps) simp
        with "1.IH" [OF True r None] show ?thesis by simp
      next
        case (Some p)
        obtain d reply_text where p: "p = (d, reply_text)" by (cases p)
        show ?thesis
        proof (cases d)
          case Allow
          with True r Some p have "?run =
              (Allowed (if reply_text \<noteq> []
                        then ''Approved via Slack thread. User feedback: '' @ reply_text
                        else ''Approved via Slack thread''),
               clear_pending (update_message msg_ts
                 (str_replace message_text FOOTER_TEXT
                    '':white_check_mark: *Approved via thread reply*'') st))"
            by (subst poll_loop.simps) simp
          then show ?thesis
            by (auto simp: update_message_def clear_pending_def)
        next
          case Refuse
          with True r Some p have "?run =
              (Denied (''User feedback: '' @ reply_text),
               clear_pending (update_message msg_ts
                 (str_replace message_text FOOTER_TEXT
                    ('':speech_balloon: *Denied with feedback:* '' @ reply_text)) st))"
            by (subst poll_loop.simps) simp
          then show ?thesis
            by (auto simp: update_message_def clear_pending_def)
        qed
      qed
    qed
  qed
qed

lemma approval_session_quiet:
  assumes "\<forall>i < TIMEOUT div POLL_INTERVAL.
             check_reactions (cycle_reactions (poll_cycles world i)) = None \<and>
             check_thread_replies (cycle_replies (poll_cycles world i)) (auth_user_id world) = None"
  shows "approval_session cfg world msg_ts message_text st =
           (TimedOut,
            update_message msg_ts
              (str_replace message_text FOOTER_TEXT
                 '':hourglass: *Waiting for terminal approval...*'')
              (save_pending cfg msg_ts message_text (save_time world) st))"
  unfolding approval_session_def
  by (rule poll_loop_no_decision) (use assms in simp_all)

lemma quiet_world_quiet:
  "check_reactions (cycle_reactions (poll_cycles quiet_world i)) = None \<and>
   check_thread_replies (cycle_replies (poll_cycles quiet_world i)) (auth_user_id quiet_world) = None"
  by (simp add: quiet_world_def check_reactions_def check_thread_replies_def)

text \<open>
  Claim C5, as stated, fails: the session that times out performs its status update and
  leaves the pending file in place.
\<close>

theorem timeout_keeps_pending_counterexample:
  "fst (approval_session demo_config quiet_world ''1700000000.000100'' demo_request
          \<lparr>chat_posts = [], chat_updates = [], pending_file = No_Pending\<rparr>) = TimedOut \<and>
   pending_file (snd (approval_session demo_config quiet_world ''1700000000.000100'' demo_request
          \<lparr>chat_posts = [], chat_updates = [], pending_file = No_Pending\<rparr>)) \<noteq> No_Pending"
proof -
  have "approval_session demo_config quiet_world ''1700000000.000100'' demo_request
          \<lparr>chat_posts = [], chat_updates = [], pending_file = No_Pending\<rparr> =
        (TimedOut,
         update_message ''1700000000.000100''
           (str_replace demo_request FOOTER_TEXT
              '':hourglass: *Waiting for terminal approval...*'')
           (save_pending demo_config ''1700000000.000100'' demo_request (save_time quiet_world)
              \<lparr>chat_posts = [], chat_updates = [], pending_file = No_Pending\<rparr>))"
    by (rule approval_session_quiet) (simp add: quiet_world_quiet)
  then show ?thesis
    by (simp add: update_message_def save_pending_def)
qed

text \<open>
  Claim C5, amended. Every way the session ends (allowed, denied, timed out) performs
  exactly one status update, on the message that was posted, rewriting the footer of its
  text; the allowed and denied endings clear the pending file, the timed-out ending
  leaves it as \<open>save_pending\<close> wrote it. A session performs the effects of one ending
  only: no update of the timeout path follows a decision.
\<close>

theorem approval_session_effects:
  "\<exists>closing.
     chat_updates (snd (approval_session cfg world msg_ts message_text st)) =
       chat_updates st @ [(msg_ts, str_replace message_text FOOTER_TEXT closing)] \<and>
     pending_file (snd (approval_session cfg world msg_ts message_text st)) =
       (if fst (approval_session cfg world msg_ts message_text st) = TimedOut
        then Pending_Json
               \<lparr>pending_msg_ts = msg_ts, pending_channel = SLACK_CHANNEL_ID cfg,
                pending_original_text = message_text, pending_timestamp = save_time world\<rparr>
        else No_Pending)"
proof -
  from poll_loop_effects [of "poll_cycles world" "auth_user_id world" msg_ts message_text 0 0
      "save_pending cfg msg_ts message_text (save_time world) st"]
  show ?thesis
    by (simp add: approval_session_def save_pending_def)
qed

theorem approval_session_effects_witness:
  "fst (approval_session demo_config approving_world ''1700000000.000100'' demo_request
          \<lparr>chat_posts = [], chat_updates = [], pending_file = No_Pending\<rparr>) =
     Allowed ''Approved via Slack'' \<and>
   length (chat_updates (snd (approval_session demo_config approving_world ''1700000000.000100''
          demo_request \<lparr>chat_posts = [], chat_updates = [], pending_file = No_Pending\<rparr>))) = 1 \<and>
   pending_file (snd (approval_session demo_config approving_world ''1700000000.000100''
          demo_request \<lparr>chat_posts = [], chat_updates = [], pending_file = No_Pending\<rparr>)) =
     No_Pending"
proof -
  have "fst (approval_session demo_config approving_world ''1700000000.000100'' demo_request
          \<lparr>chat_posts = [], chat_updates = [], pending_file = No_Pending\<rparr>) =
     Allowed ''Approved via Slack''"
    unfolding approval_session_def
    by (subst poll_loop.simps)
       (simp add: approving_world_def TIMEOUT_def check_reactions_def APPROVE_REACTIONS_def
         DENY_REACTIONS_def)
  with approval_session_effects [of demo_config approving_world "''1700000000.000100''"
      demo_request "\<lparr>chat_posts = [], chat_updates = [], pending_file = No_Pending\<rparr>"]
  show ?thesis by auto
qed

text \<open>
  Claim C6. The loop sleeps \<open>POLL_INTERVAL\<close> = 2 seconds a turn and runs while less than
  \<open>TIMEOUT\<close> = 300 seconds have passed, so it makes at most 150 turns. When neither the
  reactions nor the replies give a decision in any of them, the session ends timed out:
  one status update announces the wait for the terminal, the hook prints no decision,
  and the pending file stays as \<open>save_pending\<close> wrote it.
\<close>

theorem approval_session_timeout:
  assumes "\<forall>i < TIMEOUT div POLL_INTERVAL.
             check_reactions (cycle_reactions (poll_cycles world i)) = None \<and>
             check_thread_replies (cycle_replies (poll_cycles world i)) (auth_user_id world) = None"
  shows "TIMEOUT = 300 \<and> POLL_INTERVAL = 2 \<and>
         fst (approval_session cfg world msg_ts message_text st) = TimedOut \<and>
         chat_updates (snd (approval_session cfg world msg_ts message_text st)) =
           chat_updates st @
           [(msg_ts, str_replace message_text FOOTER_TEXT
                       '':hourglass: *Waiting for terminal approval...*'')] \<and>
         pending_file (snd (approval_session cfg world msg_ts message_text st)) =
           Pending_Json
             \<lparr>pending_msg_ts = msg_ts, pending_channel = SLACK_CHANNEL_ID cfg,
              pending_original_text = message_text, pending_timestamp = save_time world\<rparr> \<and>
         (post_answer world = Some msg_ts \<and> msg_ts \<noteq> [] \<longrightarrow>
            fst (request_approval cfg world message_text thread_ts st) = None \<and>
            pending_file (snd (request_approval cfg world message_text thread_ts st)) =
              Pending_Json
                \<lparr>pending_msg_ts = msg_ts, pending_channel = SLACK_CHANNEL_ID cfg,
                 pending_original_text = message_text, pending_timestamp = save_time world\<rparr>)"
proof -
  have run: "approval_session cfg world msg_ts message_text st' =
           (TimedOut,
            update_message msg_ts
              (str_replace message_text FOOTER_TEXT
                 '':hourglass: *Waiting for terminal approval...*'')
              (save_pending cfg msg_ts message_text (save_time world) st'))" for st'
    by (rule approval_session_quiet [OF assms])
  show ?thesis
    by (simp add: run TIMEOUT_def POLL_INTERVAL_def update_message_def save_pending_def
        request_approval_def post_message_def truthy_def)
qed

theorem approval_session_timeout_witness:
  "check_reactions (cycle_reactions (poll_cycles quiet_world 149)) = None \<and>
   check_thread_replies (cycle_replies (poll_cycles quiet_world 149)) (auth_user_id quiet_world) = None \<and>
   fst (approval_session demo_config quiet_world ''1700000000.000100'' demo_request
          \<lparr>chat_posts = [], chat_updates = [], pending_file = No_Pending\<rparr>) = TimedOut \<and>
   pending_file (snd (approval_session demo_config quiet_world ''1700000000.000100'' demo_request
          \<lparr>chat_posts = [], chat_updates = [], pending_file = No_Pending\<rparr>)) =
     Pending_Json
       \<lparr>pending_msg_ts = ''1700000000.000100'', pending_channel = ''C0APPROVALS'',
        pending_original_text = demo_request, pending_timestamp = 1700000000\<rparr>"
  using approval_session_timeout [of quiet_world demo_config "''1700000000.000100''" demo_request
      "\<lparr>chat_posts = [], chat_updates = [], pending_file = No_Pending\<rparr>"]
  by (simp add: quiet_world_quiet) (simp add: quiet_world_def demo_config_def)

section \<open>Properties of the session table\<close>

lemma load_set_session:
  "load_sessions (set_session thread_ts sid dir now later file) ts =
     (if ts = thread_ts
      then (if now > later - SESSION_MAX_AGE
            then Some \<lparr>session_id = sid, project_dir = dir, last_active = Some now\<rparr> else None)
      else (case load_sessions file ts of
              None \<Rightarrow> None
            | Some info \<Rightarrow>
                if get_last_active info > later - SESSION_MAX_AGE then Some info else None))"
  by (simp add: set_session_def save_sessions_def get_last_active_def)

lemma set_session_Json:
  "set_session thread_ts sid dir now later file =
   Sessions_Json (load_sessions (set_session thread_ts sid dir now later file))"
  by (simp add: set_session_def save_sessions_def)

lemma set_session_idem:
  "set_session thread_ts sid dir now later (set_session thread_ts sid dir now later file) =
   set_session thread_ts sid dir now later file"
proof -
  let ?once = "set_session thread_ts sid dir now later file"
  have "load_sessions (set_session thread_ts sid dir now later ?once) ts =
        load_sessions ?once ts" for ts
    by (simp add: load_set_session split: option.splits)
  then have "load_sessions (set_session thread_ts sid dir now later ?once) =
        load_sessions ?once"
    by (rule ext)
  then have "Sessions_Json (load_sessions (set_session thread_ts sid dir now later ?once)) =
        Sessions_Json (load_sessions ?once)"
    by simp
  then show ?thesis
    by (simp only: set_session_Json [symmetric])
qed

lemma set_session_evicts:
  "load_sessions (set_session thread_ts sid dir now later file) ts = Some info \<Longrightarrow>
   get_last_active info > later - SESSION_MAX_AGE"
  by (auto simp: load_set_session get_last_active_def split: if_splits option.splits)

lemma load_touch_session:
  "load_sessions (touch_session thread_ts now file) ts =
     (if ts = thread_ts
      then (case load_sessions file ts of
              None \<Rightarrow> None
            | Some info \<Rightarrow> Some (info\<lparr>last_active := Some now\<rparr>))
      else load_sessions file ts)"
  by (simp add: touch_session_def save_sessions_def split: option.splits)

text \<open>
  Claim C8, as stated, fails for \<open>touch_session\<close>: it writes the table and leaves an
  entry in place whose last activity is more than 24 hours old.
\<close>

theorem touch_keeps_stale_counterexample:
  "load_sessions (touch_session ''B'' 200000 demo_sessions) ''B'' =
     Some \<lparr>session_id = ''s-b'', project_dir = ''/proj/b'', last_active = Some 200000\<rparr> \<and>
   load_sessions (touch_session ''B'' 200000 demo_sessions) ''A'' =
     Some \<lparr>session_id = ''s-a'', project_dir = ''/proj/a'', last_active = Some 0\<rparr> \<and>
   (0::rat) + SESSION_MAX_AGE < 200000"
  by (simp add: load_touch_session demo_sessions_def SESSION_MAX_AGE_def)

text \<open>
  Claim C8, amended. \<open>set_session\<close> is idempotent: a second call with the same
  arguments at the same clock readings leaves the file as the first call left it. Every
  write by \<open>set_session\<close> drops the entries whose last activity is not after the cutoff,
  24 hours (86400 seconds) before the clock reading, and keeps the other entries as they
  were. \<open>touch_session\<close> does not evict: it changes nothing but the last activity of
  the entry it touches.
\<close>

theorem session_table_writes:
  "SESSION_MAX_AGE = 86400 \<and>
   set_session thread_ts sid dir now later (set_session thread_ts sid dir now later file) =
     set_session thread_ts sid dir now later file \<and>
   (\<forall>ts info. load_sessions (set_session thread_ts sid dir now later file) ts = Some info \<longrightarrow>
      get_last_active info > later - SESSION_MAX_AGE) \<and>
   (\<forall>ts info. ts \<noteq> thread_ts \<and> load_sessions file ts = Some info \<and>
      get_last_active info > later - SESSION_MAX_AGE \<longrightarrow>
      load_sessions (set_session thread_ts sid dir now later file) ts = Some info) \<and>
   (\<forall>ts. ts \<noteq> thread_ts \<longrightarrow>
      load_sessions (touch_session thread_ts now file) ts = load_sessions file ts) \<and>
   (\<forall>info. load_sessions file thread_ts = Some info \<longrightarrow>
      load_sessions (touch_session thread_ts now file) thread_ts =
        Some (info\<lparr>last_active := Some now\<rparr>))"
proof -
  have evict: "\<forall>ts info.
      load_sessions (set_session thread_ts sid dir now later file) ts = Some info \<longrightarrow>
      get_last_active info > later - SESSION_MAX_AGE"
    using set_session_evicts by blast
  have keep: "\<forall>ts info. ts \<noteq> thread_ts \<and> load_sessions file ts = Some info \<and>
      get_last_active info > later - SESSION_MAX_AGE \<longrightarrow>
      load_sessions (set_session thread_ts sid dir now later file) ts = Some info"
    by (simp add: load_set_session)
  have touch: "\<forall>ts. ts \<noteq> thread_ts \<longrightarrow>
      load_sessions (touch_session thread_ts now file) ts = load_sessions file ts"
    by (simp add: load_touch_session)
  have touched: "\<forall>info. load_sessions file thread_ts = Some info \<longrightarrow>
      load_sessions (touch_session thread_ts now file) thread_ts =
        Some (info\<lparr>last_active := Some now\<rparr>)"
    by (simp add: load_touch_session)
  have age: "SESSION_MAX_AGE = 86400"
    by (simp add: SESSION_MAX_AGE_def)
  have idem: "set_session thread_ts sid dir now later
      (set_session thread_ts sid dir now later file) =
      set_session thread_ts sid dir now later file"
    by (rule set_session_idem)
  show ?thesis
    by (intro conjI age idem evict keep touch touched)
qed

theorem session_table_writes_witness:
  "load_sessions (set_session ''C'' ''s-c'' ''/proj/c'' 200000 200001 demo_sessions) ''A'' = None \<and>
   load_sessions (set_session ''C'' ''s-c'' ''/proj/c'' 200000 200001 demo_sessions) ''B'' =
     Some \<lparr>session_id = ''s-b'', project_dir = ''/proj/b'', last_active = Some 190000\<rparr> \<and>
   load_sessions (set_session ''C'' ''s-c'' ''/proj/c'' 200000 200001 demo_sessions) ''C'' =
     Some \<lparr>session_id = ''s-c'', project_dir = ''/proj/c'', last_active = Some 200000\<rparr> \<and>
   set_session ''C'' ''s-c'' ''/proj/c'' 200000 200001
     (set_session ''C'' ''s-c'' ''/proj/c'' 200000 200001 demo_sessions) =
   set_session ''C'' ''s-c'' ''/proj/c'' 200000 200001 demo_sessions \<and>
   load_sessions (touch_session ''B'' 200000 demo_sessions) ''A'' = load_sessions demo_sessions ''A''"
proof -
  have a: "load_sessions (set_session ''C'' ''s-c'' ''/proj/c'' 200000 200001 demo_sessions) ''A''
      = None"
    by (simp add: load_set_session demo_sessions_def get_last_active_def SESSION_MAX_AGE_def)
  have b: "load_sessions (set_session ''C'' ''s-c'' ''/proj/c'' 200000 200001 demo_sessions) ''B'' =
     Some \<lparr>session_id = ''s-b'', project_dir = ''/proj/b'', last_active = Some 190000\<rparr>"
    by (simp add: load_set_session demo_sessions_def get_last_active_def SESSION_MAX_AGE_def)
  have c: "load_sessions (set_session ''C'' ''s-c'' ''/proj/c'' 200000 200001 demo_sessions) ''C'' =
     Some \<lparr>session_id = ''s-c'', project_dir = ''/proj/c'', last_active = Some 200000\<rparr>"
    by (simp add: load_set_session demo_sessions_def get_last_active_def SESSION_MAX_AGE_def)
  note thm1 = session_table_writes [of "''C''" "''s-c''" "''/proj/c''" 200000 200001
      demo_sessions]
  have d: "set_session ''C'' ''s-c'' ''/proj/c'' 200000 200001
     (set_session ''C'' ''s-c'' ''/proj/c'' 200000 200001 demo_sessions) =
   set_session ''C'' ''s-c'' ''/proj/c'' 200000 200001 demo_sessions"
    by (rule thm1 [THEN conjunct2, THEN conjunct1])
  note thm2 = session_table_writes [of "''B''" "''s-c''" "''/proj/c''" 200000 200001
      demo_sessions]
  have "\<forall>ts. ts \<noteq> ''B'' \<longrightarrow>
      load_sessions (touch_session ''B'' 200000 demo_sessions) ts = load_sessions demo_sessions ts"
    by (rule thm2 [THEN conjunct2, THEN conjunct2, THEN conjunct2, THEN conjunct2,
          THEN conjunct1])
  then have e: "load_sessions (touch_session ''B'' 200000 demo_sessions) ''A'' =
      load_sessions demo_sessions ''A''"
    by simp
  show ?thesis
    by (intro conjI a b c d e)
qed


section \<open>Properties of the dispatcher\<close>

lemma run_claude_no_new_session_id:
  "no_new_session_id loads result \<Longrightarrow> snd (run_claude loads result sid) = sid"
  by (auto simp: no_new_session_id_def run_claude_def Let_def
      split: subprocess_result.splits option.splits)

lemma continue_session_write:
  assumes "get_session (sessions st) thread_ts = Some info"
  shows "sessions (process_message world txt thread_ts True st) =
           (if truthy (snd (run_claude (json_loads world)
                  (agent world txt (project_dir info) (Some (session_id info)))
                  (Some (session_id info))))
            then set_session thread_ts
                   (the (snd (run_claude (json_loads world)
                      (agent world txt (project_dir info) (Some (session_id info)))
                      (Some (session_id info)))))
                   (project_dir info) (write_time world) (cutoff_time world) (sessions st)
            else touch_session thread_ts (write_time world) (sessions st))"
  using assms
  by (simp add: process_message_def invoke_agent_def Let_def split: prod.splits)

lemma agent_calls_process_message:
  "length (agent_calls (process_message world txt thread_ts is_thread_reply st)) =
   Suc (length (agent_calls st))"
  by (simp add: process_message_def invoke_agent_def Let_def split: prod.splits option.splits)

text \<open>
  Claim C9, as stated, fails: continuing the session of thread B with an agent that
  times out, the dispatcher upserts. The entry of thread A, stale by then, is evicted,
  which a touch would not have done.
\<close>

theorem failed_run_upserts_counterexample:
  "get_session (sessions demo_daemon) ''B'' =
     Some \<lparr>session_id = ''s-b'', project_dir = ''/proj/b'', last_active = Some 190000\<rparr> \<and>
   no_new_session_id (json_loads timeout_world)
     (agent timeout_world ''go on'' ''/proj/b'' (Some ''s-b'')) \<and>
   sessions (process_message timeout_world ''go on'' ''B'' True demo_daemon) =
     set_session ''B'' ''s-b'' ''/proj/b'' 200000 200001 demo_sessions \<and>
   load_sessions (sessions (process_message timeout_world ''go on'' ''B'' True demo_daemon)) ''A''
     = None \<and>
   load_sessions (touch_session ''B'' 200000 demo_sessions) ''A'' =
     Some \<lparr>session_id = ''s-a'', project_dir = ''/proj/a'', last_active = Some 0\<rparr>"
proof -
  have g: "get_session (sessions demo_daemon) ''B'' =
     Some \<lparr>session_id = ''s-b'', project_dir = ''/proj/b'', last_active = Some 190000\<rparr>"
    by (simp add: get_session_def demo_daemon_def demo_sessions_def)
  have n: "no_new_session_id (json_loads timeout_world)
     (agent timeout_world ''go on'' ''/proj/b'' (Some ''s-b''))"
    by (simp add: no_new_session_id_def timeout_world_def)
  have r: "run_claude (json_loads timeout_world)
      (agent timeout_world ''go on'' ''/proj/b'' (Some ''s-b'')) (Some ''s-b'') =
      ('':warning: Claude timed out after 10 minutes.'', Some ''s-b'')"
    by (simp add: run_claude_def timeout_world_def)
  have s: "sessions (process_message timeout_world ''go on'' ''B'' True demo_daemon) =
     set_session ''B'' ''s-b'' ''/proj/b'' 200000 200001 demo_sessions"
    using continue_session_write [OF g, of timeout_world "''go on''"]
    by (simp add: r truthy_def) (simp add: timeout_world_def demo_daemon_def)
  have a: "load_sessions (set_session ''B'' ''s-b'' ''/proj/b'' 200000 200001 demo_sessions) ''A''
     = None"
    by (simp add: load_set_session demo_sessions_def get_last_active_def SESSION_MAX_AGE_def)
  have a': "load_sessions
      (sessions (process_message timeout_world ''go on'' ''B'' True demo_daemon)) ''A'' = None"
    by (simp only: s a)
  have t: "load_sessions (touch_session ''B'' 200000 demo_sessions) ''A'' =
     Some \<lparr>session_id = ''s-a'', project_dir = ''/proj/a'', last_active = Some 0\<rparr>"
    by (simp add: load_touch_session demo_sessions_def)
  show ?thesis
    by (intro conjI g n s a' t)
qed

text \<open>
  Claim C9, amended. Continuing an existing session, the dispatcher upserts whenever
  \<open>run_claude\<close> returns a session id that is not empty, and touches the session only
  when the returned id is \<open>None\<close> or empty. When the invocation yields no new
  session id (the subprocess raised, printed nothing, printed no JSON, or JSON without
  \<open>session_id\<close>), \<open>run_claude\<close> returns the id it was given, so the dispatcher
  upserts the stored id again with a fresh last activity, and touches only if the stored
  id is empty.
\<close>

theorem process_message_continue:
  assumes "get_session (sessions st) thread_ts = Some info"
  shows "sessions (process_message world txt thread_ts True st) =
           (if truthy (snd (run_claude (json_loads world)
                  (agent world txt (project_dir info) (Some (session_id info)))
                  (Some (session_id info))))
            then set_session thread_ts
                   (the (snd (run_claude (json_loads world)
                      (agent world txt (project_dir info) (Some (session_id info)))
                      (Some (session_id info)))))
                   (project_dir info) (write_time world) (cutoff_time world) (sessions st)
            else touch_session thread_ts (write_time world) (sessions st)) \<and>
         (no_new_session_id (json_loads world)
            (agent world txt (project_dir info) (Some (session_id info))) \<longrightarrow>
          sessions (process_message world txt thread_ts True st) =
           (if session_id info \<noteq> []
            then set_session thread_ts (session_id info) (project_dir info)
                   (write_time world) (cutoff_time world) (sessions st)
            else touch_session thread_ts (write_time world) (sessions st)))"
proof -
  have run: "sessions (process_message world txt thread_ts True st) =
           (if truthy (snd (run_claude (json_loads world)
                  (agent world txt (project_dir info) (Some (session_id info)))
                  (Some (session_id info))))
            then set_session thread_ts
                   (the (snd (run_claude (json_loads world)
                      (agent world txt (project_dir info) (Some (session_id info)))
                      (Some (session_id info)))))
                   (project_dir info) (write_time world) (cutoff_time world) (sessions st)
            else touch_session thread_ts (write_time world) (sessions st))"
    by (rule continue_session_write [OF assms])
  have "sessions (process_message world txt thread_ts True st) =
           (if session_id info \<noteq> []
            then set_session thread_ts (session_id info) (project_dir info)
                   (write_time world) (cutoff_time world) (sessions st)
            else touch_session thread_ts (write_time world) (sessions st))"
    if "no_new_session_id (json_loads world)
          (agent world txt (project_dir info) (Some (session_id info)))"
  proof -
    from that have "snd (run_claude (json_loads world)
        (agent world txt (project_dir info) (Some (session_id info)))
        (Some (session_id info))) = Some (session_id info)"
      by (rule run_claude_no_new_session_id)
    with run show ?thesis by (simp add: truthy_def)
  qed
  with run show ?thesis by blast
qed

theorem process_message_continue_witness:
  "get_session (sessions demo_daemon) ''B'' =
     Some \<lparr>session_id = ''s-b'', project_dir = ''/proj/b'', last_active = Some 190000\<rparr> \<and>
   no_new_session_id (json_loads timeout_world)
     (agent timeout_world ''go on'' ''/proj/b'' (Some ''s-b'')) \<and>
   sessions (process_message timeout_world ''go on'' ''B'' True demo_daemon) =
     set_session ''B'' ''s-b'' ''/proj/b'' 200000 200001 demo_sessions"
proof -
  have g: "get_session (sessions demo_daemon) ''B'' =
     Some \<lparr>session_id = ''s-b'', project_dir = ''/proj/b'', last_active = Some 190000\<rparr>"
    by (simp add: get_session_def demo_daemon_def demo_sessions_def)
  have n: "no_new_session_id (json_loads timeout_world)
     (agent timeout_world ''go on'' ''/proj/b'' (Some ''s-b''))"
    by (simp add: no_new_session_id_def timeout_world_def)
  have n': "no_new_session_id (json_loads timeout_world)
     (agent timeout_world ''go on''
        (project_dir \<lparr>session_id = ''s-b'', project_dir = ''/proj/b'',
           last_active = Some 190000\<rparr>)
        (Some (session_id \<lparr>session_id = ''s-b'', project_dir = ''/proj/b'',
           last_active = Some 190000\<rparr>)))"
    using n by simp
  from process_message_continue [OF g, THEN conjunct2, THEN mp, OF n']
  have "sessions (process_message timeout_world ''go on'' ''B'' True demo_daemon) =
     set_session ''B'' ''s-b'' ''/proj/b'' (write_time timeout_world)
       (cutoff_time timeout_world) (sessions demo_daemon)"
    by simp
  then have s: "sessions (process_message timeout_world ''go on'' ''B'' True demo_daemon) =
     set_session ''B'' ''s-b'' ''/proj/b'' 200000 200001 demo_sessions"
    by (simp add: timeout_world_def demo_daemon_def)
  show ?thesis
    by (intro conjI g n s)
qed

section \<open>Properties of the single-flight guard\<close>

lemma in_phase_length: "in_phase d i p \<Longrightarrow> i < length (handlers d)"
  by (simp add: in_phase_def)

lemma in_phase_unique: "in_phase d i p \<Longrightarrow> in_phase d i q \<Longrightarrow> p = q"
  by (simp add: in_phase_def)

lemma in_phase_set_phase:
  "in_phase (set_phase i p d) j q =
     (if j = i \<and> i < length (handlers d) then q = p else in_phase d j q)"
  by (auto simp: in_phase_def set_phase_def)

lemma thread_of_set_phase: "thread_of (set_phase i p d) j = thread_of d j"
  by (cases "i < length (handlers d)"; cases "j = i")
     (simp_all add: thread_of_def set_phase_def list_update_beyond)

lemma active_threads_set_phase: "active_threads (set_phase i p d) = active_threads d"
  by (simp add: set_phase_def)

lemma invocations_set_phase: "invocations (set_phase i p d) = invocations d"
  by (simp add: set_phase_def)

lemma in_phase_other_fields:
  "in_phase (d\<lparr>active_threads := a\<rparr>) j q = in_phase d j q"
  "in_phase (d\<lparr>invocations := v\<rparr>) j q = in_phase d j q"
  by (simp_all add: in_phase_def)

lemma thread_of_other_fields:
  "thread_of (d\<lparr>active_threads := a\<rparr>) j = thread_of d j"
  "thread_of (d\<lparr>invocations := v\<rparr>) j = thread_of d j"
  by (simp_all add: thread_of_def)

lemma in_phase_arrive:
  "in_phase (d\<lparr>handlers := handlers d @ [(t, Waiting)]\<rparr>) j q =
     (if j = length (handlers d) then q = Waiting else in_phase d j q)"
  by (auto simp: in_phase_def nth_append)

lemma thread_of_arrive:
  "j < length (handlers d) \<Longrightarrow>
   thread_of (d\<lparr>handlers := handlers d @ [(t, Waiting)]\<rparr>) j = thread_of d j"
  by (simp add: thread_of_def nth_append)

lemmas view_simps =
  in_phase_set_phase thread_of_set_phase active_threads_set_phase invocations_set_phase
  in_phase_other_fields thread_of_other_fields

lemma single_flight_initial: "single_flight initial_dispatcher"
  by (simp add: single_flight_def initial_dispatcher_def handling_def has_invoked_def
      in_phase_def)

lemma single_flight_arrive:
  assumes "single_flight d"
  shows "single_flight (step (Arrive t) d)"
proof -
  let ?d = "d\<lparr>handlers := handlers d @ [(t, Waiting)]\<rparr>"
  have h: "handling ?d i = handling d i" for i
    by (auto simp: handling_def in_phase_arrive dest: in_phase_length)
  have v: "has_invoked ?d i = has_invoked d i" for i
    by (auto simp: has_invoked_def in_phase_arrive dest: in_phase_length)
  have th: "thread_of ?d i = thread_of d i" if "handling d i" for i
    using that by (auto simp: handling_def intro: thread_of_arrive dest: in_phase_length)
  have "single_flight ?d"
    using assms unfolding single_flight_def h v
    by (auto simp: th)
  then show ?thesis by simp
qed

lemma single_flight_enter:
  assumes sf: "single_flight d"
  shows "single_flight (step (Enter i) d)"
proof (cases "in_phase d i Waiting")
  case False
  with sf show ?thesis by simp
next
  case True
  then have len: "i < length (handlers d)" by (rule in_phase_length)
  from True have nh: "\<not> handling d i"
    by (auto simp: handling_def dest: in_phase_unique)
  from True have nv: "\<not> has_invoked d i"
    by (auto simp: has_invoked_def dest: in_phase_unique)
  show ?thesis
  proof (cases "thread_of d i \<in> active_threads d")
    case taken: True
    let ?d = "set_phase i Dropped d"
    have h: "handling ?d j = handling d j" for j
      using nh len by (auto simp: handling_def view_simps)
    have v: "has_invoked ?d j = has_invoked d j" for j
      using nv len by (auto simp: has_invoked_def view_simps)
    have "single_flight ?d"
      using sf unfolding single_flight_def h v by (simp add: view_simps)
    with True taken show ?thesis by simp
  next
    case free: False
    let ?d = "set_phase i Running
                (d\<lparr>active_threads := insert (thread_of d i) (active_threads d)\<rparr>)"
    have h: "handling ?d j = (j = i \<or> handling d j)" for j
      using len by (auto simp: handling_def view_simps)
    have v: "has_invoked ?d j = has_invoked d j" for j
      using nv len by (auto simp: has_invoked_def view_simps)
    have other: "thread_of d j \<noteq> thread_of d i" if "handling d j" for j
      using sf that free unfolding single_flight_def by metis
    have "single_flight ?d"
      unfolding single_flight_def h v
    proof (intro conjI allI impI)
      fix j assume "j = i \<or> handling d j"
      then show "thread_of ?d j \<in> active_threads ?d"
        using sf by (auto simp: single_flight_def view_simps)
    next
      fix j k
      assume a: "(j = i \<or> handling d j) \<and> (k = i \<or> handling d k) \<and>
                 thread_of ?d j = thread_of ?d k"
      then have eq: "thread_of d j = thread_of d k" by (simp add: view_simps)
      show "j = k"
      proof (cases "j = i")
        case ji: True
        show ?thesis
        proof (cases "k = i")
          case True with ji show ?thesis by simp
        next
          case False
          with a have "handling d k" by simp
          from other [OF this] eq ji show ?thesis by simp
        qed
      next
        case jn: False
        with a have hj: "handling d j" by simp
        show ?thesis
        proof (cases "k = i")
          case True
          from other [OF hj] eq True show ?thesis by simp
        next
          case False
          with a have "handling d k" by simp
          with hj eq sf show ?thesis unfolding single_flight_def by blast
        qed
      qed
    next
      show "distinct (invocations ?d)"
        using sf by (simp add: single_flight_def view_simps)
    next
      fix j
      show "(j \<in> set (invocations ?d)) = has_invoked d j"
        using sf by (simp add: single_flight_def view_simps)
    qed
    with True free show ?thesis by simp
  qed
qed

lemma single_flight_invoke:
  assumes sf: "single_flight d"
  shows "single_flight (step (Invoke i) d)"
proof (cases "in_phase d i Running")
  case False
  with sf show ?thesis by simp
next
  case True
  then have len: "i < length (handlers d)" by (rule in_phase_length)
  from True have hi: "handling d i" by (simp add: handling_def)
  from True have nv: "\<not> has_invoked d i"
    by (auto simp: has_invoked_def dest: in_phase_unique)
  let ?d = "set_phase i Invoked (d\<lparr>invocations := invocations d @ [i]\<rparr>)"
  have h: "handling ?d j = handling d j" for j
    using hi len by (auto simp: handling_def view_simps)
  have v: "has_invoked ?d j = (j = i \<or> has_invoked d j)" for j
    using len by (auto simp: has_invoked_def view_simps)
  from sf nv have fresh: "i \<notin> set (invocations d)"
    by (simp add: single_flight_def)
  have "single_flight ?d"
    using sf fresh unfolding single_flight_def h v
    by (auto simp: view_simps)
  with True show ?thesis by simp
qed

lemma single_flight_release:
  assumes sf: "single_flight d"
  shows "single_flight (step (Release i) d)"
proof (cases "in_phase d i Invoked")
  case False
  with sf show ?thesis by simp
next
  case True
  then have len: "i < length (handlers d)" by (rule in_phase_length)
  from True have hi: "handling d i" by (simp add: handling_def)
  from True have vi: "has_invoked d i" by (simp add: has_invoked_def)
  let ?d = "set_phase i Finished (d\<lparr>active_threads := active_threads d - {thread_of d i}\<rparr>)"
  have h: "handling ?d j = (j \<noteq> i \<and> handling d j)" for j
    using len by (auto simp: handling_def view_simps)
  have v: "has_invoked ?d j = has_invoked d j" for j
    using vi len by (auto simp: has_invoked_def view_simps)
  have other: "thread_of d j \<noteq> thread_of d i" if "handling d j" "j \<noteq> i" for j
    using sf that hi unfolding single_flight_def by metis
  have "single_flight ?d"
    unfolding single_flight_def h v
  proof (intro conjI allI impI)
    fix j assume "j \<noteq> i \<and> handling d j"
    then show "thread_of ?d j \<in> active_threads ?d"
      using sf other [of j] by (auto simp: single_flight_def view_simps)
  next
    fix j k
    assume "(j \<noteq> i \<and> handling d j) \<and> (k \<noteq> i \<and> handling d k) \<and>
            thread_of ?d j = thread_of ?d k"
    then have "handling d j" "handling d k" "thread_of d j = thread_of d k"
      by (simp_all add: view_simps)
    with sf show "j = k" unfolding single_flight_def by blast
  next
    show "distinct (invocations ?d)"
      using sf by (simp add: single_flight_def view_simps)
  next
    fix j
    show "(j \<in> set (invocations ?d)) = has_invoked d j"
      using sf by (simp add: single_flight_def view_simps)
  qed
  with True show ?thesis by simp
qed

lemma single_flight_abort:
  assumes sf: "single_flight d"
  shows "single_flight (step (Abort i) d)"
proof (cases "in_phase d i Running")
  case False
  with sf show ?thesis by simp
next
  case True
  then have len: "i < length (handlers d)" by (rule in_phase_length)
  from True have hi: "handling d i" by (simp add: handling_def)
  from True have nv: "\<not> has_invoked d i"
    by (auto simp: has_invoked_def dest: in_phase_unique)
  let ?d = "set_phase i Aborted (d\<lparr>active_threads := active_threads d - {thread_of d i}\<rparr>)"
  have h: "handling ?d j = (j \<noteq> i \<and> handling d j)" for j
    using len by (auto simp: handling_def view_simps)
  have v: "has_invoked ?d j = has_invoked d j" for j
    using nv len by (auto simp: has_invoked_def view_simps)
  have other: "thread_of d j \<noteq> thread_of d i" if "handling d j" "j \<noteq> i" for j
    using sf that hi unfolding single_flight_def by metis
  have "single_flight ?d"
    unfolding single_flight_def h v
  proof (intro conjI allI impI)
    fix j assume "j \<noteq> i \<and> handling d j"
    then show "thread_of ?d j \<in> active_threads ?d"
      using sf other [of j] by (auto simp: single_flight_def view_simps)
  next
    fix j k
    assume "(j \<noteq> i \<and> handling d j) \<and> (k \<noteq> i \<and> handling d k) \<and>
            thread_of ?d j = thread_of ?d k"
    then have "handling d j" "handling d k" "thread_of d j = thread_of d k"
      by (simp_all add: view_simps)
    with sf show "j = k" unfolding single_flight_def by blast
  next
    show "distinct (invocations ?d)"
      using sf by (simp add: single_flight_def view_simps)
  next
    fix j
    show "(j \<in> set (invocations ?d)) = has_invoked d j"
      using sf by (simp add: single_flight_def view_simps)
  qed
  with True show ?thesis by simp
qed

lemma single_flight_step: "single_flight d \<Longrightarrow> single_flight (step e d)"
  by (cases e)
     (simp_all only: single_flight_arrive single_flight_enter single_flight_invoke
        single_flight_release single_flight_abort)

lemma single_flight_run: "single_flight d \<Longrightarrow> single_flight (run es d)"
  by (induction es arbitrary: d) (simp_all add: single_flight_step)

lemma dropped_step: "in_phase d j Dropped \<Longrightarrow> in_phase (step e d) j Dropped"
proof (cases e)
  case (Arrive t)
  assume "in_phase d j Dropped"
  then show ?thesis
    using Arrive by (auto simp: in_phase_arrive dest: in_phase_length)
next
  case (Enter i)
  assume "in_phase d j Dropped"
  then show ?thesis
    using Enter by (auto simp: view_simps dest: in_phase_unique)
next
  case (Invoke i)
  assume "in_phase d j Dropped"
  then show ?thesis
    using Invoke by (auto simp: view_simps dest: in_phase_unique)
next
  case (Release i)
  assume "in_phase d j Dropped"
  then show ?thesis
    using Release by (auto simp: view_simps dest: in_phase_unique)
next
  case (Abort i)
  assume "in_phase d j Dropped"
  then show ?thesis
    using Abort by (auto simp: view_simps dest: in_phase_unique)
qed

lemma dropped_run: "in_phase d j Dropped \<Longrightarrow> in_phase (run es d) j Dropped"
  by (induction es arbitrary: d) (simp_all add: dropped_step)

lemma enter_while_handled:
  assumes sf: "single_flight d"
    and first: "handling d i"
    and second: "in_phase d j Waiting"
    and same: "thread_of d j = thread_of d i"
  shows "in_phase (step (Enter j) d) j Dropped \<and>
         invocations (step (Enter j) d) = invocations d \<and>
         active_threads (step (Enter j) d) = active_threads d"
proof -
  from sf first have "thread_of d i \<in> active_threads d"
    by (simp add: single_flight_def)
  with same have "thread_of d j \<in> active_threads d" by simp
  with second show ?thesis
    by (auto simp: view_simps dest: in_phase_length)
qed

lemma distinct_singleton: "distinct xs \<Longrightarrow> set xs = {a} \<Longrightarrow> xs = [a]"
proof -
  assume d: "distinct xs" and s: "set xs = {a}"
  from d have "length xs = card (set xs)" by (simp add: distinct_card)
  with s have l: "length xs = 1" by simp
  then obtain x where "xs = [x]" by (cases xs) auto
  with s show ?thesis by simp
qed

text \<open>
  Claim C7. In every interleaving of the handlers' steps, no two handlers of the same
  thread identity are inside \<open>_process_message\<close> at once. A handler that reaches its
  test of \<open>_active_threads\<close> while another handler of its thread is being handled
  returns at once: it is dropped, changes neither the set nor the invocations, and stays
  dropped whatever follows. The handlers that invoked the agent are those that got in
  and reached the call, each once; so when two events of thread T came, the first was
  handled to its end and the second was dropped, the agent was invoked exactly once
  for T.
\<close>

theorem dispatcher_single_flight:
  "(\<forall>i j. handling (run schedule initial_dispatcher) i \<and>
          handling (run schedule initial_dispatcher) j \<and>
          thread_of (run schedule initial_dispatcher) i =
          thread_of (run schedule initial_dispatcher) j \<longrightarrow> i = j) \<and>
   (\<forall>i j. handling (run schedule initial_dispatcher) i \<and>
          in_phase (run schedule initial_dispatcher) j Waiting \<and>
          thread_of (run schedule initial_dispatcher) j =
          thread_of (run schedule initial_dispatcher) i \<longrightarrow>
          in_phase (step (Enter j) (run schedule initial_dispatcher)) j Dropped \<and>
          invocations (step (Enter j) (run schedule initial_dispatcher)) =
            invocations (run schedule initial_dispatcher) \<and>
          active_threads (step (Enter j) (run schedule initial_dispatcher)) =
            active_threads (run schedule initial_dispatcher)) \<and>
   (\<forall>j later. in_phase (run schedule initial_dispatcher) j Dropped \<longrightarrow>
          in_phase (run later (run schedule initial_dispatcher)) j Dropped) \<and>
   distinct (invocations (run schedule initial_dispatcher)) \<and>
   (\<forall>i. i \<in> set (invocations (run schedule initial_dispatcher)) \<longleftrightarrow>
          has_invoked (run schedule initial_dispatcher) i) \<and>
   (\<forall>t. handlers (run schedule initial_dispatcher) = [(t, Finished), (t, Dropped)] \<longrightarrow>
          invocations (run schedule initial_dispatcher) = [0])"
proof -
  let ?d = "run schedule initial_dispatcher"
  have sf: "single_flight ?d"
    by (rule single_flight_run [OF single_flight_initial])
  have one: "\<forall>i j. handling ?d i \<and> handling ?d j \<and> thread_of ?d i = thread_of ?d j \<longrightarrow> i = j"
    using sf unfolding single_flight_def by blast
  have two: "\<forall>i j. handling ?d i \<and> in_phase ?d j Waiting \<and> thread_of ?d j = thread_of ?d i \<longrightarrow>
          in_phase (step (Enter j) ?d) j Dropped \<and>
          invocations (step (Enter j) ?d) = invocations ?d \<and>
          active_threads (step (Enter j) ?d) = active_threads ?d"
    using enter_while_handled [OF sf] by blast
  have three: "\<forall>j later. in_phase ?d j Dropped \<longrightarrow> in_phase (run later ?d) j Dropped"
    using dropped_run by blast
  have four: "distinct (invocations ?d)"
    using sf unfolding single_flight_def by blast
  have five: "\<forall>i. i \<in> set (invocations ?d) \<longleftrightarrow> has_invoked ?d i"
    using sf unfolding single_flight_def by blast
  have six: "\<forall>t. handlers ?d = [(t, Finished), (t, Dropped)] \<longrightarrow> invocations ?d = [0]"
  proof (intro allI impI)
    fix t assume h: "handlers ?d = [(t, Finished), (t, Dropped)]"
    have "has_invoked ?d i = (i = 0)" for i
      by (cases i) (auto simp: has_invoked_def in_phase_def h)
    with five have "set (invocations ?d) = {0}" by auto
    with four show "invocations ?d = [0]" by (rule distinct_singleton)
  qed
  show ?thesis
    by (intro conjI one two three four five six)
qed

theorem dispatcher_single_flight_witness:
  "handling (run [Arrive ''T'', Enter 0, Arrive ''T''] initial_dispatcher) 0 \<and>
   in_phase (run [Arrive ''T'', Enter 0, Arrive ''T''] initial_dispatcher) 1 Waiting \<and>
   in_phase (step (Enter 1) (run [Arrive ''T'', Enter 0, Arrive ''T''] initial_dispatcher)) 1
     Dropped \<and>
   handlers (run [Arrive ''T'', Enter 0, Arrive ''T'', Enter 1, Invoke 0, Release 0, Enter 1]
      initial_dispatcher) = [(''T'', Finished), (''T'', Dropped)] \<and>
   invocations (run [Arrive ''T'', Enter 0, Arrive ''T'', Enter 1, Invoke 0, Release 0, Enter 1]
      initial_dispatcher) = [0]"
proof -
  let ?mid = "run [Arrive ''T'', Enter 0, Arrive ''T''] initial_dispatcher"
  let ?end = "run [Arrive ''T'', Enter 0, Arrive ''T'', Enter 1, Invoke 0, Release 0, Enter 1]
      initial_dispatcher"
  have mid: "?mid = \<lparr>active_threads = {''T''}, handlers = [(''T'', Running), (''T'', Waiting)],
      invocations = []\<rparr>"
    by (simp add: initial_dispatcher_def in_phase_def thread_of_def set_phase_def)
  have a: "handling ?mid 0"
    unfolding mid by (simp add: handling_def in_phase_def)
  have b: "in_phase ?mid 1 Waiting"
    unfolding mid by (simp add: in_phase_def)
  have c: "thread_of ?mid 1 = thread_of ?mid 0"
    unfolding mid by (simp add: thread_of_def)
  note thm1 = dispatcher_single_flight [of "[Arrive ''T'', Enter 0, Arrive ''T'']"]
  from thm1 a b c have d: "in_phase (step (Enter 1) ?mid) 1 Dropped"
    by blast
  have e: "handlers ?end = [(''T'', Finished), (''T'', Dropped)]"
    by (simp add: initial_dispatcher_def in_phase_def thread_of_def set_phase_def)
  note thm2 = dispatcher_single_flight
    [of "[Arrive ''T'', Enter 0, Arrive ''T'', Enter 1, Invoke 0, Release 0, Enter 1]"]
  from thm2 e have f: "invocations ?end = [0]"
    by blast
  show ?thesis
    by (intro conjI a b d e f)
qed

end
